theory Spec2Isabelle
  imports Complex_Main "HOL-Library.Multiset"
begin

section \<open>Data model\<close>

text \<open>
  The development embeds \<^verbatim>\<open>EQlib::System\<close> (System.h) and
  \<^verbatim>\<open>get_or_default\<close> (Define.h). A C++ \<^verbatim>\<open>double\<close> is read as a real number
  (exact arithmetic, no NaN and no rounding); an \<^verbatim>\<open>int\<close> or \<^verbatim>\<open>size_t\<close> that
  counts or indexes DoFs is a natural number (all of them stay far below \<open>2 ^ 31\<close>), and
  the loop counter \<^verbatim>\<open>iteration\<close> and the option \<^verbatim>\<open>maxiter\<close>, which may be
  negative, are integers.
\<close>

type_synonym Vector = "real list"

text \<open>A dense matrix, row by row: \<^verbatim>\<open>m(i, j)\<close> is \<open>m ! i ! j\<close>.\<close>

type_synonym Matrix = "real list list"

text \<open>
  Modelled from the spec: Dof.h and Variable.h are missing. A \<^verbatim>\<open>Dof\<close> is a handle with
  a value-based identity (here a natural number) onto a shared variable that carries the
  current value \<open>delta\<close>, the \<open>target\<close>, the \<open>isfixed\<close> flag and the scratch field
  \<open>residual\<close>. The variables live in a store that the elements read and that
  \<^verbatim>\<open>set_delta\<close> and \<^verbatim>\<open>set_residual\<close> write.
\<close>

type_synonym Dof = nat

record Variable =
  delta :: real
  target :: real
  isfixed :: bool
  residual :: real

type_synonym dof_store = "Dof \<Rightarrow> Variable"

definition set_delta :: "Dof \<Rightarrow> real \<Rightarrow> dof_store \<Rightarrow> dof_store" where
  "set_delta d v st = st(d := (st d)\<lparr>delta := v\<rparr>)"

definition set_residual :: "Dof \<Rightarrow> real \<Rightarrow> dof_store \<Rightarrow> dof_store" where
  "set_residual d v st = st(d := (st d)\<lparr>residual := v\<rparr>)"

text \<open>
  The option bag (a \<^verbatim>\<open>py::dict\<close>) with the keys the core reads or writes; a key
  that is absent is \<open>None\<close>, and a value that is present has the C++ type the core
  casts it to.
\<close>

record options =
  linear_solver :: "string option"
  lambda :: "real option"
  maxiter :: "int option"
  rtol :: "real option"
  xtol :: "real option"
  iteration :: "int option"

text \<open>Define.h, \<^verbatim>\<open>get_or_default\<close>.\<close>

definition get_or_default :: "'a option \<Rightarrow> 'a \<Rightarrow> 'a" where
  "get_or_default entry default_value =
     (case entry of None \<Rightarrow> default_value | Some v \<Rightarrow> v)"

text \<open>
  Element.h: an element is an object with two virtual methods. \<^verbatim>\<open>compute\<close> is a
  deterministic function of the option bag and of the DoF variables it reads.
\<close>

record Element =
  element_dofs :: "Dof list"
  element_compute :: "options \<Rightarrow> dof_store \<Rightarrow> Matrix \<times> Vector"

text \<open>System.h, \<^verbatim>\<open>struct Index\<close>; \<^verbatim>\<open>operator<\<close> compares \<open>global\<close> only.\<close>

record Index =
  local :: nat
  global :: nat

text \<open>
  \<^verbatim>\<open>Eigen::SparseMatrix<double, ColMajor>\<close>: its dimensions and, for every structural
  entry \<open>(row, col)\<close>, the stored value.
\<close>

record Sparse =
  rows :: nat
  cols :: nat
  coeffs :: "(nat \<times> nat) \<rightharpoonup> real"

text \<open>\<^verbatim>\<open>Sparse(rows, cols)\<close>: no structural entry.\<close>

definition Sparse_empty :: "nat \<Rightarrow> nat \<Rightarrow> Sparse" where
  "Sparse_empty r c = \<lparr>rows = r, cols = c, coeffs = Map.empty\<rparr>"

text \<open>\<^verbatim>\<open>insert(row, col)\<close>: a new structural entry with value 0.\<close>

definition sparse_insert :: "nat \<Rightarrow> nat \<Rightarrow> Sparse \<Rightarrow> Sparse" where
  "sparse_insert row col M = M\<lparr>coeffs := (coeffs M)((row, col) \<mapsto> 0)\<rparr>"

text \<open>
  \<^verbatim>\<open>coeffRef(row, col) += v\<close>: \<^verbatim>\<open>coeffRef\<close> returns the stored value and creates the
  entry, with value 0, when it is not structurally present.
\<close>

definition coeffRef_add :: "nat \<Rightarrow> nat \<Rightarrow> real \<Rightarrow> Sparse \<Rightarrow> Sparse" where
  "coeffRef_add row col v M =
     M\<lparr>coeffs := (coeffs M)((row, col) \<mapsto>
        (case coeffs M (row, col) of None \<Rightarrow> 0 | Some a \<Rightarrow> a) + v)\<rparr>"

text \<open>The loop over all \<^verbatim>\<open>InnerIterator\<close>s that sets \<^verbatim>\<open>valueRef() = 0\<close>.\<close>

definition set_values_zero :: "Sparse \<Rightarrow> Sparse" where
  "set_values_zero M = M\<lparr>coeffs := (\<lambda>k. map_option (\<lambda>_. 0) (coeffs M k))\<rparr>"

text \<open>\<^verbatim>\<open>Vector::norm()\<close>: the 2-norm.\<close>

definition norm2 :: "Vector \<Rightarrow> real" where
  "norm2 v = sqrt (sum_list (map (\<lambda>a. a * a) v))"

text \<open>The two solver classes \<^verbatim>\<open>m_solver\<close> can point to.\<close>

datatype Solver = SolverLDLT | SolverLSMR

text \<open>
  Solver/SolverLDLT.h and Solver/SolverLSMR.h are missing, so what a solver returns is a
  parameter of \<^verbatim>\<open>solve\<close>: \<open>sv slv M b\<close> is the vector \<open>x\<close> that
  \<^verbatim>\<open>set_matrix(M); solve(b, x)\<close> writes, or \<open>None\<close> when the solver reports an error.
\<close>

type_synonym solver_fn = "Solver \<Rightarrow> Sparse \<Rightarrow> Vector \<Rightarrow> Vector option"

datatype error = ConfigurationError | NullPointerDereference | SolverError

text \<open>
  Eigen does not initialise a freshly sized vector and the constructor does not set
  \<^verbatim>\<open>m_stopping_reason\<close>: what these hold after construction is a parameter.
\<close>

record uninit =
  u_rhs :: "nat \<Rightarrow> real"
  u_x :: "nat \<Rightarrow> real"
  u_target :: "nat \<Rightarrow> real"
  u_residual :: "nat \<Rightarrow> real"
  u_stopping_reason :: int

text \<open>A \<^verbatim>\<open>std::set<int>\<close>: its elements in ascending order, each once.\<close>

type_synonym int_set = "nat list"

definition set_insert :: "nat \<Rightarrow> int_set \<Rightarrow> int_set" where
  "set_insert x s = (if x \<in> set s then s else insort x s)"

record System =
  m_dofs :: "Dof list"
  m_dof_indices :: "Dof \<rightharpoonup> nat"
  m_nb_free_dofs :: nat
  m_nb_fixed_dofs :: nat
  m_elements :: "Element list"
  m_index_table :: "Index list list"
  m_pattern :: "int_set list"
  m_col_nonzeros :: "nat list"
  m_lhs :: Sparse
  m_rhs :: Vector
  m_x :: Vector
  m_target :: Vector
  m_residual :: Vector
  m_stopping_reason :: int
  m_solver :: "Solver option"

section \<open>Construction\<close>

text \<open>
  The loop that creates the set of unique DoFs: the state is \<^verbatim>\<open>dof_set\<close>,
  \<^verbatim>\<open>free_dofs\<close> and \<^verbatim>\<open>fixed_dofs\<close>.
\<close>

definition add_dof ::
  "dof_store \<Rightarrow> Dof \<Rightarrow> Dof set \<times> Dof list \<times> Dof list \<Rightarrow> Dof set \<times> Dof list \<times> Dof list" where
  "add_dof st dof acc =
     (case acc of (dof_set, free_dofs, fixed_dofs) \<Rightarrow>
        if dof \<in> dof_set then acc
        else if isfixed (st dof) then (insert dof dof_set, free_dofs, fixed_dofs @ [dof])
        else (insert dof dof_set, free_dofs @ [dof], fixed_dofs))"

definition unique_dofs :: "dof_store \<Rightarrow> Dof list list \<Rightarrow> Dof set \<times> Dof list \<times> Dof list" where
  "unique_dofs st eds = fold (\<lambda>dofs acc. fold (add_dof st) dofs acc) eds ({}, [], [])"

text \<open>The \<open>{dof -> index}\<close> map.\<close>

definition make_dof_indices :: "Dof list \<Rightarrow> (Dof \<rightharpoonup> nat)" where
  "make_dof_indices dofs = fold (\<lambda>i m. m(dofs ! i \<mapsto> i)) [0..<length dofs] Map.empty"

text \<open>
  \<^verbatim>\<open>m_dof_indices[dof]\<close>: \<^verbatim>\<open>operator[]\<close> of \<^verbatim>\<open>unordered_map\<close> gives 0 for a key
  that is not in the map (every DoF of an element is in it).
\<close>

definition index_of :: "(Dof \<rightharpoonup> nat) \<Rightarrow> Dof \<Rightarrow> nat" where
  "index_of m dof = (case m dof of None \<Rightarrow> 0 | Some i \<Rightarrow> i)"

text \<open>
  One element's index table. \<^verbatim>\<open>std::sort\<close> orders by \<open>global\<close> and leaves the order
  of entries with equal \<open>global\<close> open, so the sort is a parameter \<open>srt\<close>;
  \<open>std_sort_spec\<close> says what \<^verbatim>\<open>std::sort\<close> guarantees.
\<close>

definition std_sort_spec :: "(Index list \<Rightarrow> Index list) \<Rightarrow> bool" where
  "std_sort_spec srt = (\<forall>xs. mset (srt xs) = mset xs \<and> sorted (map global (srt xs)))"

definition make_index_table ::
  "(Index list \<Rightarrow> Index list) \<Rightarrow> (Dof \<rightharpoonup> nat) \<Rightarrow> Dof list \<Rightarrow> Index list" where
  "make_index_table srt m dofs =
     srt (map (\<lambda>l. \<lparr>local = l, global = index_of m (dofs ! l)\<rparr>) [0..<length dofs])"

text \<open>Pattern analysis: the inner loop over \<open>col\<close>, the loop over \<open>row\<close>, the loop over the tables.\<close>

definition pattern_col :: "nat \<Rightarrow> Index list \<Rightarrow> nat \<Rightarrow> nat \<Rightarrow> int_set list \<Rightarrow> int_set list" where
  "pattern_col F dof_indices row col pattern =
     (let row_index = dof_indices ! row; col_index = dof_indices ! col
      in if global col_index \<ge> F then pattern
         else pattern[global col_index :=
                set_insert (global row_index) (pattern ! global col_index)])"

definition pattern_row :: "nat \<Rightarrow> Index list \<Rightarrow> nat \<Rightarrow> int_set list \<Rightarrow> int_set list" where
  "pattern_row F dof_indices row pattern =
     (if global (dof_indices ! row) \<ge> F then pattern
      else fold (pattern_col F dof_indices row) [row..<length dof_indices] pattern)"

definition analyze_pattern :: "nat \<Rightarrow> Index list list \<Rightarrow> int_set list" where
  "analyze_pattern F index_table =
     fold (\<lambda>dof_indices pattern.
             fold (pattern_row F dof_indices) [0..<length dof_indices] pattern)
          index_table (replicate F [])"

text \<open>The loop that inserts the structural entries, column by column.\<close>

definition insert_pattern :: "int_set list \<Rightarrow> Sparse \<Rightarrow> Sparse" where
  "insert_pattern pattern M =
     fold (\<lambda>col M1. fold (\<lambda>row M2. sparse_insert row col M2) (pattern ! col) M1)
          [0..<length pattern] M"

text \<open>
  The constructor. An unknown solver name prints \<^verbatim>\<open>"error"\<close> and leaves
  \<^verbatim>\<open>m_solver\<close> null; the call \<^verbatim>\<open>m_solver->analyze_pattern(m_lhs)\<close> that follows
  dereferences it. On one of the two solvers the call returns and changes nothing the
  system holds.
\<close>

definition System_ctor ::
  "(Index list \<Rightarrow> Index list) \<Rightarrow> uninit \<Rightarrow> Element list \<Rightarrow> options \<Rightarrow> dof_store
     \<Rightarrow> error + System" where
  "System_ctor srt u elements opts st =
     (let linear_solver = get_or_default (linear_solver opts) ''ldlt'';
          element_dofs = map element_dofs elements;
          (dof_set, free_dofs, fixed_dofs) = unique_dofs st element_dofs;
          nb_free_dofs = length free_dofs;
          nb_fixed_dofs = length fixed_dofs;
          dofs = free_dofs @ fixed_dofs;
          dof_indices = make_dof_indices dofs;
          index_table = map (make_index_table srt dof_indices) element_dofs;
          pattern = analyze_pattern nb_free_dofs index_table;
          col_nonzeros = map length pattern;
          lhs0 = Sparse_empty nb_free_dofs nb_free_dofs;
          lhs = (if nb_free_dofs > 0 then insert_pattern pattern lhs0 else lhs0);
          solver = (if linear_solver = ''ldlt'' then Some SolverLDLT
                    else if linear_solver = ''lsmr'' then Some SolverLSMR
                    else None)
      in case solver of
           None \<Rightarrow> Inl NullPointerDereference
         | Some slv \<Rightarrow>
             Inr \<lparr>m_dofs = dofs, m_dof_indices = dof_indices,
                  m_nb_free_dofs = nb_free_dofs, m_nb_fixed_dofs = nb_fixed_dofs,
                  m_elements = elements, m_index_table = index_table,
                  m_pattern = pattern, m_col_nonzeros = col_nonzeros,
                  m_lhs = lhs,
                  m_rhs = map (u_rhs u) [0..<nb_free_dofs],
                  m_x = map (u_x u) [0..<nb_free_dofs],
                  m_target = map (u_target u) [0..<nb_free_dofs],
                  m_residual = map (u_residual u) [0..<nb_free_dofs],
                  m_stopping_reason = u_stopping_reason u,
                  m_solver = Some slv\<rparr>)"

text \<open>The structural nonzeros of a sparse matrix.\<close>

definition structural_nonzeros :: "Sparse \<Rightarrow> (nat \<times> nat) set" where
  "structural_nonzeros M = dom (coeffs M)"

text \<open>
  The pattern in the words of the spec: the pairs \<open>(global(r), global(c))\<close> for the
  positions \<open>r \<le> c\<close> of some element's index table whose global indices are both free.
\<close>

definition element_pairs :: "nat \<Rightarrow> Index list list \<Rightarrow> (nat \<times> nat) set" where
  "element_pairs F index_table =
     (\<Union>t \<in> set index_table. \<Union>c \<in> {0..<length t}. \<Union>r \<in> {0..c}.
        if global (t ! r) < F \<and> global (t ! c) < F
        then {(global (t ! r), global (t ! c))} else {})"

text \<open>The pairs \<open>(row, col)\<close> that a list of per-column sets holds.\<close>

definition pattern_pairs :: "int_set list \<Rightarrow> (nat \<times> nat) set" where
  "pattern_pairs pattern =
     (\<Union>col \<in> {0..<length pattern}. \<Union>row \<in> set (pattern ! col). {(row, col)})"

section \<open>Assembly\<close>

text \<open>
  The scatter of one element's local matrix and vector, shared by \<^verbatim>\<open>compute\<close> and
  \<^verbatim>\<open>compute_parallel\<close>: the inner loop over \<open>col\<close>, the body of the loop over
  \<open>row\<close> and the loop over \<open>row\<close>. The accumulator is the pair of the global LHS and RHS.
\<close>

definition scatter_col ::
  "nat \<Rightarrow> Index list \<Rightarrow> Matrix \<Rightarrow> nat \<Rightarrow> nat \<Rightarrow> Sparse \<Rightarrow> Sparse" where
  "scatter_col F dof_indices local_lhs row col lhs =
     (let row_index = dof_indices ! row; col_index = dof_indices ! col
      in if global col_index \<ge> F then lhs
         else coeffRef_add (global row_index) (global col_index)
                (local_lhs ! local row_index ! local col_index) lhs)"

definition scatter_row ::
  "nat \<Rightarrow> Index list \<Rightarrow> Matrix \<times> Vector \<Rightarrow> nat \<Rightarrow> Sparse \<times> Vector \<Rightarrow> Sparse \<times> Vector" where
  "scatter_row F dof_indices loc row acc =
     (case loc of (local_lhs, local_rhs) \<Rightarrow>
      case acc of (lhs, rhs) \<Rightarrow>
        let row_index = dof_indices ! row
        in if global row_index \<ge> F then acc
           else (fold (scatter_col F dof_indices local_lhs row) [row..<length dof_indices] lhs,
                 rhs[global row_index := rhs ! global row_index + local_rhs ! local row_index]))"

definition add_element ::
  "nat \<Rightarrow> Index list \<Rightarrow> Matrix \<times> Vector \<Rightarrow> Sparse \<times> Vector \<Rightarrow> Sparse \<times> Vector" where
  "add_element F dof_indices loc acc =
     fold (scatter_row F dof_indices loc) [0..<length dof_indices] acc"

text \<open>The body of the loop over the elements: element \<open>i\<close> computes and is scattered.\<close>

definition assemble_element ::
  "options \<Rightarrow> dof_store \<Rightarrow> System \<Rightarrow> nat \<Rightarrow> Sparse \<times> Vector \<Rightarrow> Sparse \<times> Vector" where
  "assemble_element opts st sys i acc =
     add_element (m_nb_free_dofs sys) (m_index_table sys ! i)
       (element_compute (m_elements sys ! i) opts st) acc"

text \<open>\<^verbatim>\<open>System::compute\<close>: set LHS values and RHS to zero, then add every element in input order.\<close>

definition compute :: "options \<Rightarrow> dof_store \<Rightarrow> System \<Rightarrow> System" where
  "compute opts st sys =
     (let zeroed = (set_values_zero (m_lhs sys), replicate (length (m_rhs sys)) 0);
          (lhs, rhs) = fold (assemble_element opts st sys) [0..<length (m_elements sys)] zeroed
      in sys\<lparr>m_lhs := lhs, m_rhs := rhs\<rparr>)"

text \<open>
  \<^verbatim>\<open>System::compute_parallel\<close>: the last pipeline stage is
  \<^verbatim>\<open>serial_out_of_order\<close>, so the elements are scattered one at a time, each once, in an
  order the scheduler chooses: \<open>order\<close> is that order, a permutation of the element
  numbers. Nothing is set to zero before.
\<close>

definition compute_parallel :: "nat list \<Rightarrow> options \<Rightarrow> dof_store \<Rightarrow> System \<Rightarrow> System" where
  "compute_parallel order opts st sys =
     (let (lhs, rhs) = fold (assemble_element opts st sys) order (m_lhs sys, m_rhs sys)
      in sys\<lparr>m_lhs := lhs, m_rhs := rhs\<rparr>)"

text \<open>
  The value of a coefficient, 0 where it is not stored, and what it means that a piece of
  the assembly only adds: it keeps the dimensions, creates a set of entries \<open>K\<close> and adds
  an amount \<open>S k\<close> to every coefficient, both independent of the matrix it starts from;
  for the pair of LHS and RHS, moreover, it keeps the length of the RHS and adds an
  amount \<open>D i\<close> to every entry.
\<close>

definition lhs_value :: "Sparse \<Rightarrow> nat \<times> nat \<Rightarrow> real" where
  "lhs_value M k = (case coeffs M k of None \<Rightarrow> 0 | Some a \<Rightarrow> a)"

definition adds_lhs :: "(Sparse \<Rightarrow> Sparse) \<Rightarrow> bool" where
  "adds_lhs H =
     (\<exists>K S. \<forall>M. rows (H M) = rows M \<and> cols (H M) = cols M
        \<and> dom (coeffs (H M)) = dom (coeffs M) \<union> K
        \<and> (\<forall>k. lhs_value (H M) k = lhs_value M k + S k))"

definition adds_to :: "(Sparse \<times> Vector \<Rightarrow> Sparse \<times> Vector) \<Rightarrow> bool" where
  "adds_to G =
     (\<exists>H D. adds_lhs H
        \<and> (\<forall>M b. fst (G (M, b)) = H M
               \<and> length (snd (G (M, b))) = length b
               \<and> (\<forall>i<length b. snd (G (M, b)) ! i = b ! i + D i)))"

section \<open>The Newton driver\<close>

text \<open>
  What \<^verbatim>\<open>solve\<close> calls on its collaborators, in order: an element's
  \<^verbatim>\<open>compute\<close> (iteration, element number), the solver's \<^verbatim>\<open>set_matrix\<close> and
  \<^verbatim>\<open>solve\<close>, and \<^verbatim>\<open>set_delta\<close> on the DoF with a global index.
\<close>

datatype event = ElementCompute int nat | SetMatrix | SolverSolve | SetDelta nat

type_synonym solve_state = "System \<times> dof_store \<times> event list"

datatype 'a step = Break 'a | Continue 'a

text \<open>The setup of \<^verbatim>\<open>m_target\<close> before the loop.\<close>

definition setup_target :: "real \<Rightarrow> dof_store \<Rightarrow> System \<Rightarrow> System" where
  "setup_target lam st sys =
     (let target1 = fold (\<lambda>i t. t[i := target (st (m_dofs sys ! i))])
                      [0..<m_nb_free_dofs sys] (m_target sys);
          target2 = (if lam \<noteq> 1 then map (\<lambda>a. a * lam) target1 else target1)
      in sys\<lparr>m_target := target2\<rparr>)"

text \<open>The update loop \<^verbatim>\<open>m_dofs[i].set_delta(m_dofs[i].delta() - m_x(i))\<close>.\<close>

definition update_dofs :: "System \<Rightarrow> dof_store \<Rightarrow> dof_store" where
  "update_dofs sys st =
     fold (\<lambda>i s. set_delta (m_dofs sys ! i) (delta (s (m_dofs sys ! i)) - m_x sys ! i) s)
       [0..<m_nb_free_dofs sys] st"

text \<open>The loop after the iteration that writes the residual into each free DoF.\<close>

definition store_residuals :: "System \<Rightarrow> dof_store \<Rightarrow> dof_store" where
  "store_residuals sys st =
     fold (\<lambda>i s. set_residual (m_dofs sys ! i) (m_residual sys ! i) s)
       [0..<m_nb_free_dofs sys] st"

text \<open>
  One pass through the loop body after the iteration-limit check: assemble, residual,
  check, solve, update, check. \<open>Break\<close> is a \<^verbatim>\<open>break\<close>, \<open>Continue\<close> reaches the end of
  the body. The option bag keeps the key \<open>iteration\<close> it was given.
\<close>

definition newton_iteration ::
  "solver_fn \<Rightarrow> real \<Rightarrow> real \<Rightarrow> options \<Rightarrow> int \<Rightarrow> solve_state \<Rightarrow> error + solve_state step" where
  "newton_iteration sv rt xt opts k s =
     (case s of (sys, st, tr) \<Rightarrow>
        let opts1 = opts\<lparr>iteration := Some k\<rparr>;
            sys1 = compute opts1 st sys;
            tr1 = tr @ map (ElementCompute k) [0..<length (m_elements sys)];
            sys2 = sys1\<lparr>m_residual := map2 (-) (m_rhs sys1) (m_target sys1)\<rparr>;
            rnorm = norm2 (m_residual sys2)
        in if rnorm < rt then Inr (Break (sys2\<lparr>m_stopping_reason := 0\<rparr>, st, tr1))
           else (case m_solver sys2 of
                   None \<Rightarrow> Inl NullPointerDereference
                 | Some slv \<Rightarrow>
                    (case sv slv (m_lhs sys2) (m_residual sys2) of
                       None \<Rightarrow> Inl SolverError
                     | Some x \<Rightarrow>
                        (let sys3 = sys2\<lparr>m_x := x\<rparr>;
                             st1 = update_dofs sys3 st;
                             tr2 = tr1 @ [SetMatrix, SolverSolve]
                                      @ map SetDelta [0..<m_nb_free_dofs sys3];
                             xnorm = norm2 (m_x sys3)
                         in if xnorm < xt
                            then Inr (Break (sys3\<lparr>m_stopping_reason := 1\<rparr>, st1, tr2))
                            else Inr (Continue (sys3, st1, tr2))))))"

text \<open>
  The loop \<^verbatim>\<open>for (int iteration = 0; ; iteration++)\<close>. The result carries the value of
  \<open>iteration\<close> at the \<^verbatim>\<open>break\<close>.
\<close>

function solve_loop ::
  "solver_fn \<Rightarrow> int \<Rightarrow> real \<Rightarrow> real \<Rightarrow> options \<Rightarrow> int \<Rightarrow> solve_state
     \<Rightarrow> error + (solve_state \<times> int)" where
  "solve_loop sv maxit rt xt opts k s =
     (if k \<ge> maxit
      then (case s of (sys, st, tr) \<Rightarrow> Inr ((sys\<lparr>m_stopping_reason := 2\<rparr>, st, tr), k))
      else case newton_iteration sv rt xt opts k s of
             Inl e \<Rightarrow> Inl e
           | Inr (Break s1) \<Rightarrow> Inr (s1, k)
           | Inr (Continue s1) \<Rightarrow>
               solve_loop sv maxit rt xt (opts\<lparr>iteration := Some k\<rparr>) (k + 1) s1)"
  by pat_completeness auto
termination
  by (relation "measure (\<lambda>(sv, maxit, rt, xt, opts, k, s). nat (maxit - k))") auto

text \<open>What one pass through the whole loop body calls, in order.\<close>

definition iteration_events :: "nat \<Rightarrow> nat \<Rightarrow> int \<Rightarrow> event list" where
  "iteration_events n F k =
     map (ElementCompute k) [0..<n] @ [SetMatrix, SolverSolve] @ map SetDelta [0..<F]"

text \<open>\<^verbatim>\<open>System::solve\<close>.\<close>

definition solve ::
  "solver_fn \<Rightarrow> options \<Rightarrow> System \<Rightarrow> dof_store \<Rightarrow> error + (solve_state \<times> int)" where
  "solve sv opts sys st =
     (let lam = get_or_default (lambda opts) 1;
          maxit = get_or_default (maxiter opts) 100;
          rt = get_or_default (rtol opts) (1 / 10000000);
          xt = get_or_default (xtol opts) (1 / 10000000);
          sys1 = setup_target lam st sys
      in case solve_loop sv maxit rt xt opts 0 (sys1, st, []) of
           Inl e \<Rightarrow> Inl e
         | Inr ((sys2, st2, tr), k) \<Rightarrow> Inr ((sys2, store_residuals sys2 st2, tr), k))"

text \<open>
  The state at the head of the loop after \<open>n\<close> passes through the whole body, when
  there is one: the loop was entered \<open>n\<close> times below the iteration limit and reached the
  end of the body each time.
\<close>

fun loop_head ::
  "solver_fn \<Rightarrow> int \<Rightarrow> real \<Rightarrow> real \<Rightarrow> options \<Rightarrow> solve_state \<Rightarrow> nat
     \<Rightarrow> (options \<times> solve_state) option" where
  "loop_head sv maxit rt xt opts s 0 = Some (opts, s)"
| "loop_head sv maxit rt xt opts s (Suc n) =
     (case loop_head sv maxit rt xt opts s n of
        None \<Rightarrow> None
      | Some (opts1, s1) \<Rightarrow>
          if int n \<ge> maxit then None
          else (case newton_iteration sv rt xt opts1 (int n) s1 of
                  Inr (Continue s2) \<Rightarrow> Some (opts1\<lparr>iteration := Some (int n)\<rparr>, s2)
                | _ \<Rightarrow> None))"

section \<open>A reference linear solver\<close>

text \<open>
  Modelled from the spec: Solver/SolverLDLT.h is missing. The spec says that
  \<^verbatim>\<open>solve(b, x)\<close> solves \<open>M x = b\<close> by an \<open>LDL\<^sup>T\<close> factorisation of the symmetric
  matrix whose upper triangle is stored, and that a singular matrix is an error of the
  solver. \<open>sym_coeff\<close> reads the symmetric matrix from the stored triangle;
  \<open>ldlt_dense\<close> eliminates the first unknown with the pivot \<open>d\<close> (a zero pivot is the
  error), solves the Schur complement and substitutes back.
\<close>

definition sym_coeff :: "Sparse \<Rightarrow> nat \<Rightarrow> nat \<Rightarrow> real" where
  "sym_coeff M i j = (case coeffs M (min i j, max i j) of None \<Rightarrow> 0 | Some v \<Rightarrow> v)"

definition dense_of :: "Sparse \<Rightarrow> Matrix" where
  "dense_of M = map (\<lambda>i. map (sym_coeff M i) [0..<cols M]) [0..<rows M]"

function ldlt_dense :: "Matrix \<Rightarrow> Vector \<Rightarrow> Vector option" where
  "ldlt_dense [] b = Some []"
| "ldlt_dense ([] # A) b = None"
| "ldlt_dense ((d # u) # A) [] = None"
| "ldlt_dense ((d # u) # A) (b0 # b) =
     (if d = 0 then None
      else let l = map (\<lambda>a. a / d) u;
               S = map2 (\<lambda>li row. map2 (\<lambda>uj a. a - li * uj) u (tl row)) l A;
               c = map2 (\<lambda>li bi. bi - li * b0) l b
           in case ldlt_dense S c of
                None \<Rightarrow> None
              | Some x \<Rightarrow> Some ((b0 / d - sum_list (map2 (*) l x)) # x))"
  by pat_completeness auto
termination
  by (relation "measure (\<lambda>(A, b). length A)") auto

definition SolverLDLT_solve :: "Sparse \<Rightarrow> Vector \<Rightarrow> Vector option" where
  "SolverLDLT_solve M b = ldlt_dense (dense_of M) b"

text \<open>
  A solver parameter for concrete runs: every run below selects \<^verbatim>\<open>"ldlt"\<close>, and the
  other class is given the same exact solution.
\<close>

definition exact_solver :: solver_fn where
  "exact_solver slv M b = SolverLDLT_solve M b"

text \<open>Concrete inputs for runs: a stable sort for \<^verbatim>\<open>std::sort\<close>, zeros for uninitialised memory.\<close>

definition stable_sort :: "Index list \<Rightarrow> Index list" where
  "stable_sort xs = sort_key global xs"

definition zero_uninit :: uninit where
  "zero_uninit = \<lparr>u_rhs = (\<lambda>_. 0), u_x = (\<lambda>_. 0), u_target = (\<lambda>_. 0),
     u_residual = (\<lambda>_. 0), u_stopping_reason = - 1\<rparr>"

definition no_options :: options where
  "no_options = \<lparr>linear_solver = None, lambda = None, maxiter = None, rtol = None,
     xtol = None, iteration = None\<rparr>"

definition zero_store :: dof_store where
  "zero_store = (\<lambda>_. \<lparr>delta = 0, target = 0, isfixed = False, residual = 0\<rparr>)"

text \<open>An element over the given DoFs whose \<^verbatim>\<open>compute\<close> returns the same pair always.\<close>

definition constant_element :: "Dof list \<Rightarrow> Matrix \<Rightarrow> Vector \<Rightarrow> Element" where
  "constant_element ds A b = \<lparr>element_dofs = ds, element_compute = (\<lambda>_ _. (A, b))\<rparr>"

section \<open>Operations on a constructed system\<close>

text \<open>
  The operations of the class that change a system or the DoFs: \<^verbatim>\<open>compute\<close>,
  \<^verbatim>\<open>compute_parallel\<close> (with the order the scheduler chose) and \<^verbatim>\<open>solve\<close>, and a
  sequence of them that stops at the first error.
\<close>

datatype operation = Compute options | ComputeParallel "nat list" options | Solve options

definition apply_operation ::
  "solver_fn \<Rightarrow> operation \<Rightarrow> System \<times> dof_store \<Rightarrow> error + (System \<times> dof_store)" where
  "apply_operation sv oper s =
     (case s of (sys, st) \<Rightarrow>
        (case oper of
           Compute opts \<Rightarrow> Inr (compute opts st sys, st)
         | ComputeParallel order opts \<Rightarrow> Inr (compute_parallel order opts st sys, st)
         | Solve opts \<Rightarrow>
             (case solve sv opts sys st of
                Inl e \<Rightarrow> Inl e
              | Inr ((sys1, st1, tr), k) \<Rightarrow> Inr (sys1, st1))))"

fun apply_operations ::
  "solver_fn \<Rightarrow> operation list \<Rightarrow> System \<times> dof_store \<Rightarrow> error + (System \<times> dof_store)" where
  "apply_operations sv [] s = Inr s"
| "apply_operations sv (oper # opers) s =
     (case apply_operation sv oper s of
        Inl e \<Rightarrow> Inl e
      | Inr s1 \<Rightarrow> apply_operations sv opers s1)"

section \<open>Observations and concrete inputs\<close>

text \<open>What a caller reads off a finished \<^verbatim>\<open>solve\<close>.\<close>

definition stopping_reason_of :: "error + (solve_state \<times> int) \<Rightarrow> int option" where
  "stopping_reason_of r =
     (case r of Inl e \<Rightarrow> None | Inr ((sys, st, tr), k) \<Rightarrow> Some (m_stopping_reason sys))"

definition iterations_run :: "error + (solve_state \<times> int) \<Rightarrow> nat option" where
  "iterations_run r =
     (case r of Inl e \<Rightarrow> None
      | Inr ((sys, st, tr), k) \<Rightarrow> Some (length (filter (\<lambda>ev. ev = SolverSolve) tr)))"


text \<open>
  The system of one element over one free DoF whose \<^verbatim>\<open>compute\<close> returns \<open>[[2]]\<close> and
  \<open>[1]\<close> always, as the constructor builds it.
\<close>

definition one_dof_element :: Element where
  "one_dof_element = constant_element [0] [[2]] [1]"

definition ldlt_options :: options where
  "ldlt_options = no_options\<lparr>linear_solver := Some ''ldlt''\<rparr>"

definition one_dof_system :: System where
  "one_dof_system =
     \<lparr>m_dofs = [0], m_dof_indices = [0 \<mapsto> 0], m_nb_free_dofs = 1, m_nb_fixed_dofs = 0,
      m_elements = [one_dof_element],
      m_index_table = [[\<lparr>local = 0, global = 0\<rparr>]],
      m_pattern = [[0]], m_col_nonzeros = [1],
      m_lhs = \<lparr>rows = 1, cols = 1, coeffs = [(0, 0) \<mapsto> 0]\<rparr>,
      m_rhs = [0], m_x = [0], m_target = [0], m_residual = [0],
      m_stopping_reason = - 1, m_solver = Some SolverLDLT\<rparr>"

text \<open>A store in which DoF 1 is fixed, and an element over the DoFs 0 and 1.\<close>

definition fixed_one_store :: dof_store where
  "fixed_one_store = zero_store(1 := \<lparr>delta = 0, target = 0, isfixed = True, residual = 0\<rparr>)"

definition two_dof_element :: Element where
  "two_dof_element = constant_element [0, 1] [[2, 1], [1, 2]] [1, 1]"

text \<open>What the iterations keep of a system of one element over one free DoF.\<close>

definition one_dof_inv :: "Dof \<Rightarrow> Element \<Rightarrow> System \<Rightarrow> bool" where
  "one_dof_inv d e sys =
     (m_dofs sys = [d] \<and> m_nb_free_dofs sys = 1 \<and> m_elements sys = [e]
      \<and> m_index_table sys = [[\<lparr>local = 0, global = 0\<rparr>]]
      \<and> length (m_rhs sys) = 1 \<and> length (m_target sys) = 1 \<and> m_solver sys = Some SolverLDLT
      \<and> rows (m_lhs sys) = 1 \<and> cols (m_lhs sys) = 1)"

text \<open>What the loop over the DoFs of the elements keeps.\<close>

definition dofs_inv :: "dof_store \<Rightarrow> Dof set \<times> Dof list \<times> Dof list \<Rightarrow> bool" where
  "dofs_inv st acc = (case acc of (seen, free, fixed) \<Rightarrow>
      distinct (free @ fixed) \<and> set free \<union> set fixed = seen
      \<and> (\<forall>d\<in>set free. \<not> isfixed (st d)) \<and> (\<forall>d\<in>set fixed. isfixed (st d)))"

section \<open>Basic facts\<close>

declare solve_loop.simps [simp del]

lemma norm2_Nil: "norm2 [] = 0"
  by (simp add: norm2_def)

lemma norm2_single: "norm2 [a] = \<bar>a\<bar>"
  by (simp add: norm2_def)

lemma compute_fields:
  "m_dofs (compute opts st sys) = m_dofs sys"
  "m_nb_free_dofs (compute opts st sys) = m_nb_free_dofs sys"
  "m_nb_fixed_dofs (compute opts st sys) = m_nb_fixed_dofs sys"
  "m_elements (compute opts st sys) = m_elements sys"
  "m_index_table (compute opts st sys) = m_index_table sys"
  "m_target (compute opts st sys) = m_target sys"
  "m_x (compute opts st sys) = m_x sys"
  "m_solver (compute opts st sys) = m_solver sys"
  by (simp_all add: compute_def Let_def case_prod_beta)

lemma delta_set_residual: "delta (set_residual d v st e) = delta (st e)"
  by (simp add: set_residual_def)

lemma isfixed_set_residual: "isfixed (set_residual d v st e) = isfixed (st e)"
  by (simp add: set_residual_def)

lemma isfixed_set_delta: "isfixed (set_delta d v st e) = isfixed (st e)"
  by (simp add: set_delta_def)

lemma delta_store_residuals: "delta (store_residuals sys st d) = delta (st d)"
proof -
  have "delta (fold (\<lambda>i s. set_residual (m_dofs sys ! i) (m_residual sys ! i) s) xs st d)
        = delta (st d)" for xs
    by (induction xs arbitrary: st) (simp_all add: delta_set_residual)
  then show ?thesis by (simp add: store_residuals_def)
qed

lemma setup_target_fields:
  "m_dofs (setup_target lam st sys) = m_dofs sys"
  "m_nb_free_dofs (setup_target lam st sys) = m_nb_free_dofs sys"
  "m_nb_fixed_dofs (setup_target lam st sys) = m_nb_fixed_dofs sys"
  "m_elements (setup_target lam st sys) = m_elements sys"
  "m_index_table (setup_target lam st sys) = m_index_table sys"
  "m_lhs (setup_target lam st sys) = m_lhs sys"
  "m_rhs (setup_target lam st sys) = m_rhs sys"
  "m_x (setup_target lam st sys) = m_x sys"
  "m_solver (setup_target lam st sys) = m_solver sys"
  by (simp_all add: setup_target_def Let_def)

lemma newton_iteration_Break:
  assumes "newton_iteration sv rt xt opts k (sys, st, tr) = Inr (Break (sys', st', tr'))"
  shows "(m_stopping_reason sys' = 0
            \<and> norm2 (map2 (-) (m_rhs sys') (m_target sys')) < rt)
         \<or> (m_stopping_reason sys' = 1 \<and> norm2 (m_x sys') < xt)"
  using assms
  by (auto simp: newton_iteration_def Let_def split: if_splits option.splits)

lemma newton_iteration_Continue:
  assumes "newton_iteration sv rt xt opts k (sys, st, tr) = Inr (Continue (sys', st', tr'))"
  shows "tr' = tr @ iteration_events (length (m_elements sys)) (m_nb_free_dofs sys) k
         \<and> m_elements sys' = m_elements sys \<and> m_nb_free_dofs sys' = m_nb_free_dofs sys
         \<and> m_dofs sys' = m_dofs sys"
  using assms
  by (auto simp: newton_iteration_def Let_def iteration_events_def compute_fields
      split: if_splits option.splits)

lemma upto_snoc: "k < (m::int) \<Longrightarrow> [k..m - 1] = k # [k + 1..m - 1]"
  by (simp add: upto_rec1)

lemma solve_loop_stops:
  "solve_loop sv maxit rt xt opts k s = Inr ((sys', st', tr'), k') \<Longrightarrow>
   s = (sys, st, tr) \<Longrightarrow>
   (m_stopping_reason sys' = 0 \<longrightarrow> norm2 (map2 (-) (m_rhs sys') (m_target sys')) < rt)
   \<and> (m_stopping_reason sys' = 1 \<longrightarrow> norm2 (m_x sys') < xt)
   \<and> (m_stopping_reason sys' = 2 \<longrightarrow>
        k' = max k maxit
        \<and> tr' = tr @ concat (map (iteration_events (length (m_elements sys))
                                   (m_nb_free_dofs sys)) [k..k' - 1]))
   \<and> m_stopping_reason sys' \<in> {0, 1, 2}"
proof (induction sv maxit rt xt opts k s arbitrary: sys st tr rule: solve_loop.induct)
  case (1 sv maxit rt xt opts k s)
  show ?case
  proof (cases "maxit \<le> k")
    case True
    with "1.prems" show ?thesis
      by (auto simp: solve_loop.simps)
  next
    case False
    show ?thesis
    proof (cases "newton_iteration sv rt xt opts k s")
      case (Inl e)
      with False "1.prems" show ?thesis by (simp add: solve_loop.simps)
    next
      case (Inr r)
      show ?thesis
      proof (cases r)
        case (Break s1)
        with Inr False "1.prems" have eq: "s1 = (sys', st', tr')" and k: "k' = k"
          by (simp_all add: solve_loop.simps)
        from newton_iteration_Break[of sv rt xt opts k sys st tr sys' st' tr']
          Inr Break eq "1.prems"(2)
        show ?thesis by auto
      next
        case (Continue s1)
        obtain sys1 st1 tr1 where s1: "s1 = (sys1, st1, tr1)" by (cases s1) auto
        from Inr Continue s1 "1.prems"(2)
        have C: "newton_iteration sv rt xt opts k (sys, st, tr) = Inr (Continue (sys1, st1, tr1))"
          by simp
        note facts = newton_iteration_Continue[OF C]
        from Inr Continue False "1.prems"(1)
        have rec: "solve_loop sv maxit rt xt (opts\<lparr>iteration := Some k\<rparr>) (k + 1) s1
                   = Inr ((sys', st', tr'), k')"
          by (simp add: solve_loop.simps)
        note IH = "1.IH"[OF False Inr Continue rec s1]
        have "k < maxit" using False by simp
        then have up: "max (k + 1) maxit = max k maxit" by simp
        show ?thesis
        proof (intro conjI impI)
          assume r2: "m_stopping_reason sys' = 2"
          with IH have k': "k' = max (k + 1) maxit" by simp
          then show "k' = max k maxit" using up by simp
          have "k < k'" using k' \<open>k < maxit\<close> by simp
          then have "[k..k' - 1] = k # [k + 1..k' - 1]" by (rule upto_snoc)
          with IH r2 facts
          show "tr' = tr @ concat (map (iteration_events (length (m_elements sys))
                                      (m_nb_free_dofs sys)) [k..k' - 1])"
            by simp
        qed (use IH in auto)
      qed
    qed
  qed
qed

lemma one_dof_compute:
  assumes "one_dof_inv d e sys" and "element_compute e opts st = ([[2]], [1])"
  shows "m_rhs (compute opts st sys) = [1]"
    and "coeffs (m_lhs (compute opts st sys)) (0, 0) = Some 2"
    and "rows (m_lhs (compute opts st sys)) = 1"
    and "cols (m_lhs (compute opts st sys)) = 1"
    and "one_dof_inv d e (compute opts st sys)"
  using assms
  by (auto simp: one_dof_inv_def compute_def Let_def assemble_element_def add_element_def
      scatter_row_def scatter_col_def coeffRef_add_def set_values_zero_def
      split: option.splits)

lemma ldlt_one_dof:
  assumes "rows M = 1" and "cols M = 1" and "coeffs M (0, 0) = Some 2"
  shows "SolverLDLT_solve M [1] = Some [1 / 2]"
  using assms by (simp add: SolverLDLT_solve_def dense_of_def sym_coeff_def)

lemma one_dof_update:
  assumes "m_dofs sys = [d]" and "m_nb_free_dofs sys = 1" and "m_x sys = [a]"
  shows "update_dofs sys st = set_delta d (delta (st d) - a) st"
  using assms by (simp add: update_dofs_def)

lemma one_dof_iteration:
  assumes inv: "one_dof_inv d e sys" and e: "\<forall>opts st. element_compute e opts st = ([[2]], [1])"
    and sv: "sv SolverLDLT = SolverLDLT_solve"
    and tg: "m_target sys = [0]"
    and rt: "rt \<le> 1"
  shows "\<exists>sys'. newton_iteration sv rt xt opts k (sys, st, tr) =
            Inr ((if 1 / 2 < xt then Break else Continue)
                   (sys'\<lparr>m_stopping_reason := if 1 / 2 < xt then 1 else m_stopping_reason sys'\<rparr>,
                    set_delta d (delta (st d) - 1 / 2) st, tr @ iteration_events 1 1 k))
          \<and> one_dof_inv d e sys' \<and> m_target sys' = [0] \<and> m_x sys' = [1 / 2]"
proof -
  let ?opts = "opts\<lparr>iteration := Some k\<rparr>"
  let ?c = "compute ?opts st sys"
  from e have ec: "element_compute e ?opts st = ([[2]], [1])" by simp
  note c = one_dof_compute[OF inv ec]
  have tgc: "m_target ?c = [0]" using tg by (simp add: compute_fields)
  let ?sys2 = "?c\<lparr>m_residual := [1]\<rparr>"
  let ?sys3 = "?sys2\<lparr>m_x := [1 / 2]\<rparr>"
  have slv: "m_solver ?c = Some SolverLDLT"
    using inv by (simp add: compute_fields one_dof_inv_def)
  have x: "sv SolverLDLT (m_lhs ?c) [1] = Some [1 / 2]"
    using sv ldlt_one_dof[OF c(3) c(4) c(2)] by simp
  have inv3: "one_dof_inv d e ?sys3"
    using c(5) by (simp add: one_dof_inv_def)
  have upd: "update_dofs ?sys3 st = set_delta d (delta (st d) - 1 / 2) st"
    by (rule one_dof_update) (use inv3 in \<open>simp_all add: one_dof_inv_def\<close>)
  have n: "length (m_elements sys) = 1" "m_nb_free_dofs ?c = 1"
    using inv c(5) by (simp_all add: one_dof_inv_def)
  have "newton_iteration sv rt xt opts k (sys, st, tr) =
          Inr ((if 1 / 2 < xt then Break else Continue)
                 (?sys3\<lparr>m_stopping_reason := if 1 / 2 < xt then 1 else m_stopping_reason ?sys3\<rparr>,
                  set_delta d (delta (st d) - 1 / 2) st, tr @ iteration_events 1 1 k))"
    using rt
    by (simp add: newton_iteration_def Let_def c(1) tgc norm2_single slv x upd n
        iteration_events_def)
  moreover have "m_target ?sys3 = [0]" using tgc by simp
  ultimately show ?thesis using inv3 by (intro exI[of _ ?sys3]) simp
qed

lemma set_delta_twice: "set_delta d b (set_delta d a st) = set_delta d b st"
  by (simp add: set_delta_def)

lemma delta_set_delta: "delta (set_delta d a st d) = a"
  by (simp add: set_delta_def)

lemma one_dof_loop:
  assumes e: "\<forall>opts st. element_compute e opts st = ([[2]], [1])"
    and sv: "sv SolverLDLT = SolverLDLT_solve"
    and rt: "rt \<le> 1" and xt: "xt \<le> 1 / 2"
  shows "one_dof_inv d e sys \<Longrightarrow> m_target sys = [0] \<Longrightarrow> k \<le> maxit \<Longrightarrow> n = nat (maxit - k) \<Longrightarrow>
         \<exists>sys'. solve_loop sv maxit rt xt opts k (sys, st, tr) =
                  Inr ((sys', set_delta d (delta (st d) - real n / 2) st,
                        tr @ concat (map (iteration_events 1 1) [k..maxit - 1])), maxit)
                \<and> m_stopping_reason sys' = 2 \<and> m_dofs sys' = [d] \<and> m_nb_free_dofs sys' = 1"
proof (induction n arbitrary: k sys st tr opts)
  case 0
  then have "k = maxit" by simp
  then show ?case using "0.prems"(1)
    by (simp add: solve_loop.simps set_delta_def one_dof_inv_def)
next
  case (Suc n)
  then have lt: "k < maxit" and n: "n = nat (maxit - (k + 1))" by simp_all
  from one_dof_iteration[where d=d and e=e and sys=sys and sv=sv and rt=rt and xt=xt
      and opts=opts and k=k and st=st and tr=tr, OF Suc.prems(1) e sv Suc.prems(2) rt] xt
  obtain sys1 where it: "newton_iteration sv rt xt opts k (sys, st, tr) =
        Inr (Continue (sys1, set_delta d (delta (st d) - 1 / 2) st, tr @ iteration_events 1 1 k))"
    and inv1: "one_dof_inv d e sys1" and tg1: "m_target sys1 = [0]"
    by (auto split: if_splits)
  from lt have le: "k + 1 \<le> maxit" by simp
  from Suc.IH[where opts="opts\<lparr>iteration := Some k\<rparr>"
      and st="set_delta d (delta (st d) - 1 / 2) st" and tr="tr @ iteration_events 1 1 k",
      OF inv1 tg1 le n]
  obtain sys' where rec: "solve_loop sv maxit rt xt (opts\<lparr>iteration := Some k\<rparr>) (k + 1)
        (sys1, set_delta d (delta (st d) - 1 / 2) st, tr @ iteration_events 1 1 k) =
        Inr ((sys', set_delta d (delta (st d) - 1 / 2 - real n / 2) st,
              tr @ iteration_events 1 1 k @ concat (map (iteration_events 1 1) [k + 1..maxit - 1])),
             maxit)"
    and fin: "m_stopping_reason sys' = 2 \<and> m_dofs sys' = [d] \<and> m_nb_free_dofs sys' = 1"
    by (auto simp: set_delta_twice delta_set_delta)
  have up: "[k..maxit - 1] = k # [k + 1..maxit - 1]" using lt by (rule upto_snoc)
  have d: "delta (st d) - 1 / 2 - real n / 2 = delta (st d) - real (Suc n) / 2"
    by (simp add: field_simps)
  have "solve_loop sv maxit rt xt opts k (sys, st, tr) =
          Inr ((sys', set_delta d (delta (st d) - real (Suc n) / 2) st,
                tr @ concat (map (iteration_events 1 1) [k..maxit - 1])), maxit)"
    using lt it rec by (subst solve_loop.simps) (simp add: up d)
  with fin show ?case by blast
qed

lemma one_dof_setup_target:
  assumes "one_dof_inv d e sys" and "target (st d) = 0"
  shows "one_dof_inv d e (setup_target lam st sys)" and "m_target (setup_target lam st sys) = [0]"
  using assms
  by (auto simp: one_dof_inv_def setup_target_def Let_def length_Suc_conv)

lemma one_dof_solve_limit:
  assumes e: "\<forall>opts st. element_compute e opts st = ([[2]], [1])"
    and sv: "sv SolverLDLT = SolverLDLT_solve"
    and inv: "one_dof_inv d e sys" and tg: "target (st d) = 0"
    and rt: "get_or_default (rtol opts) (1 / 10000000) \<le> 1"
    and xt: "get_or_default (xtol opts) (1 / 10000000) \<le> 1 / 2"
    and m: "get_or_default (maxiter opts) 100 = m" "0 \<le> m"
  shows "\<exists>sys' st'. solve sv opts sys st =
            Inr ((sys', st', concat (map (iteration_events 1 1) [0..m - 1])), m)
          \<and> m_stopping_reason sys' = 2 \<and> delta (st' d) = delta (st d) - real_of_int m / 2"
proof -
  let ?lam = "get_or_default (lambda opts) 1"
  note s = one_dof_setup_target[where d=d and e=e and sys=sys and st=st and lam="?lam",
      OF inv tg]
  from one_dof_loop[where e=e and sv=sv and d=d and k=0 and maxit=m and n="nat m"
      and opts=opts and st=st and tr="[]", OF e sv rt xt s(1) s(2)] m(2)
  obtain sys' where L: "solve_loop sv m (get_or_default (rtol opts) (1 / 10000000))
        (get_or_default (xtol opts) (1 / 10000000)) opts 0 (setup_target ?lam st sys, st, []) =
        Inr ((sys', set_delta d (delta (st d) - real (nat m) / 2) st,
              concat (map (iteration_events 1 1) [0..m - 1])), m)"
    and fin: "m_stopping_reason sys' = 2"
    by auto
  have "real (nat m) = real_of_int m" using m(2) by simp
  then show ?thesis using L fin m(1)
    by (simp add: solve_def Let_def delta_store_residuals delta_set_delta)
qed

lemma one_dof_solve_step:
  assumes e: "\<forall>opts st. element_compute e opts st = ([[2]], [1])"
    and sv: "sv SolverLDLT = SolverLDLT_solve"
    and inv: "one_dof_inv d e sys" and tg: "target (st d) = 0"
    and rt: "get_or_default (rtol opts) (1 / 10000000) \<le> 1"
    and xt: "1 / 2 < get_or_default (xtol opts) (1 / 10000000)"
    and m: "0 < get_or_default (maxiter opts) 100"
  shows "\<exists>sys' st'. solve sv opts sys st = Inr ((sys', st', iteration_events 1 1 0), 0)
          \<and> m_stopping_reason sys' = 1 \<and> m_x sys' = [1 / 2]
          \<and> delta (st' d) = delta (st d) - 1 / 2"
proof -
  let ?lam = "get_or_default (lambda opts) 1"
  let ?rt = "get_or_default (rtol opts) (1 / 10000000)"
  let ?xt = "get_or_default (xtol opts) (1 / 10000000)"
  note s = one_dof_setup_target[where d=d and e=e and sys=sys and st=st and lam="?lam",
      OF inv tg]
  from one_dof_iteration[where d=d and e=e and sv=sv and xt="?xt" and opts=opts and k=0
      and st=st and tr="[]", OF s(1) e sv s(2) rt] xt
  obtain sys1 where it: "newton_iteration sv ?rt ?xt opts 0 (setup_target ?lam st sys, st, []) =
        Inr (Break (sys1\<lparr>m_stopping_reason := 1\<rparr>, set_delta d (delta (st d) - 1 / 2) st,
                    iteration_events 1 1 0))"
    and x: "m_x sys1 = [1 / 2]"
    by auto
  show ?thesis using it x m
    by (simp add: solve_def Let_def solve_loop.simps delta_store_residuals delta_set_delta)
qed

lemma one_dof_solve_residual:
  assumes e: "\<forall>opts st. element_compute e opts st = ([[2]], [1])"
    and inv: "one_dof_inv d e sys" and tg: "target (st d) = 0"
    and rt: "1 < get_or_default (rtol opts) (1 / 10000000)"
    and m: "0 < get_or_default (maxiter opts) 100"
  shows "\<exists>sys' st'. solve sv opts sys st = Inr ((sys', st', [ElementCompute 0 0]), 0)
          \<and> m_stopping_reason sys' = 0 \<and> m_rhs sys' = [1] \<and> m_target sys' = [0]"
proof -
  let ?lam = "get_or_default (lambda opts) 1"
  let ?s = "setup_target ?lam st sys"
  let ?opts = "opts\<lparr>iteration := Some 0\<rparr>"
  let ?c = "compute ?opts st ?s"
  note s = one_dof_setup_target[where d=d and e=e and sys=sys and st=st and lam="?lam",
      OF inv tg]
  from e have ec: "element_compute e ?opts st = ([[2]], [1])" by simp
  note c = one_dof_compute[OF s(1) ec]
  have tgc: "m_target ?c = [0]" using s(2) by (simp add: compute_fields)
  have n: "length (m_elements ?s) = 1" using s(1) by (simp add: one_dof_inv_def)
  have it: "newton_iteration sv (get_or_default (rtol opts) (1 / 10000000))
             (get_or_default (xtol opts) (1 / 10000000)) opts 0 (?s, st, [])
           = Inr (Break (?c\<lparr>m_residual := [1], m_stopping_reason := 0\<rparr>, st,
                         [ElementCompute 0 0]))"
    using rt by (simp add: newton_iteration_def Let_def c(1) tgc norm2_single n)
  from m have "\<not> get_or_default (maxiter opts) 100 \<le> 0" by simp
  then show ?thesis using it c(1) tgc
    by (simp add: solve_def Let_def solve_loop.simps)
qed


lemma std_sort_stable_sort: "std_sort_spec stable_sort"
  by (simp add: std_sort_spec_def stable_sort_def)

lemma add_dof_inv: "dofs_inv st acc \<Longrightarrow> dofs_inv st (add_dof st d acc)"
  by (cases acc) (auto simp: dofs_inv_def add_dof_def)

lemma fold_add_dof_inv: "dofs_inv st acc \<Longrightarrow> dofs_inv st (fold (add_dof st) ds acc)"
  by (induction ds arbitrary: acc) (simp_all add: add_dof_inv)

lemma fold_fold_add_dof_inv:
  "dofs_inv st acc \<Longrightarrow> dofs_inv st (fold (\<lambda>dofs acc. fold (add_dof st) dofs acc) eds acc)"
  by (induction eds arbitrary: acc) (simp_all add: fold_add_dof_inv)

lemma unique_dofs_inv: "dofs_inv st (unique_dofs st eds)"
  unfolding unique_dofs_def by (rule fold_fold_add_dof_inv) (simp add: dofs_inv_def)

lemma add_dof_seen: "fst (add_dof st d acc) = insert d (fst acc)"
  by (cases acc) (auto simp: add_dof_def)

lemma fold_add_dof_seen: "fst (fold (add_dof st) ds acc) = set ds \<union> fst acc"
  by (induction ds arbitrary: acc) (auto simp: add_dof_seen)

lemma unique_dofs_seen: "fst (unique_dofs st eds) = \<Union> (set (map set eds))"
proof -
  have "fst (fold (\<lambda>dofs acc. fold (add_dof st) dofs acc) eds acc) = \<Union> (set (map set eds)) \<union> fst acc"
    for acc
    by (induction eds arbitrary: acc) (auto simp: fold_add_dof_seen)
  then show ?thesis by (simp add: unique_dofs_def)
qed

lemma System_ctor_Inr:
  assumes "System_ctor srt u els copts st = Inr sys"
  obtains seen free fixed where
    "unique_dofs st (map element_dofs els) = (seen, free, fixed)"
    "m_dofs sys = free @ fixed"
    "m_nb_free_dofs sys = length free"
    "m_nb_fixed_dofs sys = length fixed"
    "m_elements sys = els"
    "m_dof_indices sys = make_dof_indices (free @ fixed)"
    "m_index_table sys =
       map (make_index_table srt (make_dof_indices (free @ fixed))) (map element_dofs els)"
    "m_pattern sys = analyze_pattern (length free) (m_index_table sys)"
    "m_lhs sys = (if length free > 0
        then insert_pattern (m_pattern sys) (Sparse_empty (length free) (length free))
        else Sparse_empty (length free) (length free))"
    "length (m_rhs sys) = length free" "length (m_target sys) = length free"
    "length (m_x sys) = length free" "length (m_residual sys) = length free"
    "m_solver sys \<noteq> None"
proof -
  obtain seen free fixed where u: "unique_dofs st (map element_dofs els) = (seen, free, fixed)"
    by (cases "unique_dofs st (map element_dofs els)") auto
  from assms u have
    "m_dofs sys = free @ fixed \<and>
    m_nb_free_dofs sys = length free \<and>
    m_nb_fixed_dofs sys = length fixed \<and>
    m_elements sys = els \<and>
    m_dof_indices sys = make_dof_indices (free @ fixed) \<and>
    m_index_table sys =
       map (make_index_table srt (make_dof_indices (free @ fixed))) (map element_dofs els) \<and>
    m_pattern sys = analyze_pattern (length free) (m_index_table sys) \<and>
    m_lhs sys = (if length free > 0
        then insert_pattern (m_pattern sys) (Sparse_empty (length free) (length free))
        else Sparse_empty (length free) (length free)) \<and>
    length (m_rhs sys) = length free \<and> length (m_target sys) = length free \<and>
    length (m_x sys) = length free \<and> length (m_residual sys) = length free \<and>
    m_solver sys \<noteq> None"
    by (auto simp: System_ctor_def Let_def split: option.splits if_splits)
  with u that show ?thesis by blast
qed

lemma System_ctor_succeeds:
  assumes "linear_solver copts \<in> {None, Some ''ldlt'', Some ''lsmr''}"
  shows "\<exists>sys. System_ctor srt u els copts st = Inr sys"
  using assms
  by (auto simp: System_ctor_def Let_def get_or_default_def case_prod_beta)

lemma System_ctor_unknown_solver:
  assumes "linear_solver copts = Some name" and "name \<noteq> ''ldlt''" and "name \<noteq> ''lsmr''"
  shows "System_ctor srt u els copts st = Inl NullPointerDereference"
  using assms
  by (simp add: System_ctor_def Let_def get_or_default_def case_prod_beta)

lemma one_dof_system_constructed:
  "System_ctor stable_sort zero_uninit [one_dof_element] ldlt_options zero_store
     = Inr one_dof_system"
  by (simp add: System_ctor_def Let_def get_or_default_def no_options_def unique_dofs_def
      add_dof_def constant_element_def zero_store_def make_dof_indices_def
      make_index_table_def index_of_def stable_sort_def analyze_pattern_def pattern_row_def
      pattern_col_def set_insert_def insert_pattern_def sparse_insert_def Sparse_empty_def
      zero_uninit_def one_dof_system_def one_dof_element_def ldlt_options_def)

lemma one_dof_element_constant:
  "\<forall>opts st. element_compute one_dof_element opts st = ([[2]], [1])"
  by (simp add: one_dof_element_def constant_element_def)

lemma one_dof_system_inv: "one_dof_inv 0 one_dof_element one_dof_system"
  by (simp add: one_dof_inv_def one_dof_system_def)

lemma exact_solver_ldlt: "exact_solver SolverLDLT = SolverLDLT_solve"
  by (rule ext, rule ext) (simp add: exact_solver_def)


lemma solve_limit_at_entry:
  assumes "maxiter opts = Some m" and "m \<le> 0"
  shows "solve sv opts sys st =
           Inr (((setup_target (get_or_default (lambda opts) 1) st sys)\<lparr>m_stopping_reason := 2\<rparr>,
                 store_residuals
                   ((setup_target (get_or_default (lambda opts) 1) st sys)\<lparr>m_stopping_reason := 2\<rparr>)
                   st, []), 0)"
  using assms
  by (simp add: solve_def Let_def get_or_default_def solve_loop.simps)

section \<open>Facts about the update and the loop\<close>

lemma fold_set_delta:
  "distinct js \<Longrightarrow> inj_on ((!) ds) (insert j (set js)) \<Longrightarrow>
   delta (fold (\<lambda>i s. set_delta (ds ! i) (delta (s (ds ! i)) - x ! i) s) js st (ds ! j))
     = (if j \<in> set js then delta (st (ds ! j)) - x ! j else delta (st (ds ! j)))"
proof (induction js arbitrary: st)
  case Nil
  then show ?case by simp
next
  case (Cons a js)
  let ?st = "set_delta (ds ! a) (delta (st (ds ! a)) - x ! a) st"
  from Cons.prems have d: "distinct js" and a: "a \<notin> set js"
    and inj: "inj_on ((!) ds) (insert j (set js))"
    by (auto simp: inj_on_def)
  note IH = Cons.IH[OF d inj, of ?st]
  show ?case
  proof (cases "j = a")
    case True
    with a IH show ?thesis by (simp add: set_delta_def)
  next
    case False
    with Cons.prems(2) have "ds ! j \<noteq> ds ! a" by (auto simp: inj_on_def)
    with IH False show ?thesis by (simp add: set_delta_def)
  qed
qed

lemma update_dofs_delta:
  assumes "distinct (m_dofs sys)" and "m_nb_free_dofs sys \<le> length (m_dofs sys)"
    and "i < m_nb_free_dofs sys"
  shows "delta (update_dofs sys st (m_dofs sys ! i)) = delta (st (m_dofs sys ! i)) - m_x sys ! i"
proof -
  have "inj_on ((!) (m_dofs sys)) (insert i (set [0..<m_nb_free_dofs sys]))"
    using assms by (auto simp: inj_on_def nth_eq_iff_index_eq)
  from fold_set_delta[OF _ this, of "m_x sys" st] assms(3)
  show ?thesis by (simp add: update_dofs_def)
qed

lemma newton_iteration_step_exit:
  assumes "newton_iteration sv rt xt opts k (sys, st, tr) = Inr (Break (sys', st', tr'))"
    and "m_stopping_reason sys' = 1"
  shows "norm2 (m_x sys') < xt \<and> st' = update_dofs sys' st
         \<and> m_dofs sys' = m_dofs sys \<and> m_nb_free_dofs sys' = m_nb_free_dofs sys"
  using assms
  by (auto simp: newton_iteration_def Let_def compute_fields update_dofs_def
      split: if_splits option.splits)

lemma loop_head_fields:
  "loop_head sv maxit rt xt opts (sys, st, tr) n = Some (opts1, (sysh, sth, trh)) \<Longrightarrow>
   m_dofs sysh = m_dofs sys \<and> m_nb_free_dofs sysh = m_nb_free_dofs sys"
proof (induction n arbitrary: opts1 sysh sth trh)
  case 0
  then show ?case by simp
next
  case (Suc n)
  from Suc.prems obtain o1 s1 t1 r1 where
    h: "loop_head sv maxit rt xt opts (sys, st, tr) n = Some (o1, (s1, t1, r1))"
    and it: "newton_iteration sv rt xt o1 (int n) (s1, t1, r1) = Inr (Continue (sysh, sth, trh))"
    by (auto split: option.splits if_splits sum.splits step.splits)
  from Suc.IH[OF h] newton_iteration_Continue[OF it] show ?case by simp
qed

lemma solve_loop_step_exit:
  "solve_loop sv maxit rt xt opts k s = Inr ((sys', st', tr'), k') \<Longrightarrow>
   m_stopping_reason sys' = 1 \<Longrightarrow> 0 \<le> k \<Longrightarrow>
   loop_head sv maxit rt xt opts0 s0 (nat k) = Some (opts, s) \<Longrightarrow>
   \<exists>opts1 h. loop_head sv maxit rt xt opts0 s0 (nat k') = Some (opts1, h)
     \<and> newton_iteration sv rt xt opts1 k' h = Inr (Break (sys', st', tr'))
     \<and> k \<le> k' \<and> k' < maxit"
proof (induction sv maxit rt xt opts k s rule: solve_loop.induct)
  case (1 sv maxit rt xt opts k s)
  show ?case
  proof (cases "maxit \<le> k")
    case True
    with "1.prems"(1,2) show ?thesis
      by (auto simp: solve_loop.simps split: prod.splits)
  next
    case False
    show ?thesis
    proof (cases "newton_iteration sv rt xt opts k s")
      case (Inl e)
      with False "1.prems"(1) show ?thesis by (simp add: solve_loop.simps)
    next
      case (Inr r)
      show ?thesis
      proof (cases r)
        case (Break s1)
        with Inr False "1.prems"(1) have "s1 = (sys', st', tr')" and "k' = k"
          by (simp_all add: solve_loop.simps)
        with Inr Break False "1.prems"(4) show ?thesis by auto
      next
        case (Continue s1)
        from Inr Continue False "1.prems"(1)
        have rec: "solve_loop sv maxit rt xt (opts\<lparr>iteration := Some k\<rparr>) (k + 1) s1
                   = Inr ((sys', st', tr'), k')"
          by (simp add: solve_loop.simps)
        have nk: "nat (k + 1) = Suc (nat k)" using "1.prems"(3) by simp
        have head: "loop_head sv maxit rt xt opts0 s0 (nat (k + 1))
                    = Some (opts\<lparr>iteration := Some k\<rparr>, s1)"
          using "1.prems"(3,4) False Inr Continue by (simp add: nk)
        from "1.prems"(3) have k1: "0 \<le> k + 1" by simp
        from "1.IH"[OF False Inr Continue rec "1.prems"(2) k1 head]
        show ?thesis by auto
      qed
    qed
  qed
qed

lemma System_ctor_dofs:
  assumes "System_ctor srt u els copts st = Inr sys"
  shows "distinct (m_dofs sys)"
    and "length (m_dofs sys) = m_nb_free_dofs sys + m_nb_fixed_dofs sys"
    and "\<forall>i<length (m_dofs sys). (i < m_nb_free_dofs sys) = (\<not> isfixed (st (m_dofs sys ! i)))"
    and "set (m_dofs sys) = \<Union> (set (map (set \<circ> element_dofs) els))"
proof -
  from assms obtain seen free fixed where
    u: "unique_dofs st (map element_dofs els) = (seen, free, fixed)"
    and d: "m_dofs sys = free @ fixed" and n: "m_nb_free_dofs sys = length free"
    and m: "m_nb_fixed_dofs sys = length fixed"
    by (rule System_ctor_Inr)
  from unique_dofs_inv[of st "map element_dofs els"] u
  have inv: "distinct (free @ fixed)" "set free \<union> set fixed = seen"
    "\<forall>d\<in>set free. \<not> isfixed (st d)" "\<forall>d\<in>set fixed. isfixed (st d)"
    by (simp_all add: dofs_inv_def)
  show "distinct (m_dofs sys)" using inv(1) d by simp
  show "length (m_dofs sys) = m_nb_free_dofs sys + m_nb_fixed_dofs sys" using d n m by simp
  show "\<forall>i<length (m_dofs sys). (i < m_nb_free_dofs sys) = (\<not> isfixed (st (m_dofs sys ! i)))"
    using inv(3,4) d n by (auto simp: nth_append)
  from unique_dofs_seen[of st "map element_dofs els"] u inv(2) d
  show "set (m_dofs sys) = \<Union> (set (map (set \<circ> element_dofs) els))" by simp
qed

section \<open>What the operations keep\<close>

lemma compute_parallel_fields:
  "m_dofs (compute_parallel order opts st sys) = m_dofs sys"
  "m_nb_free_dofs (compute_parallel order opts st sys) = m_nb_free_dofs sys"
  "m_nb_fixed_dofs (compute_parallel order opts st sys) = m_nb_fixed_dofs sys"
  "m_elements (compute_parallel order opts st sys) = m_elements sys"
  "m_index_table (compute_parallel order opts st sys) = m_index_table sys"
  by (simp_all add: compute_parallel_def case_prod_beta)

lemma isfixed_update_dofs: "isfixed (update_dofs sys st d) = isfixed (st d)"
proof -
  have "isfixed (fold (\<lambda>i s. set_delta (m_dofs sys ! i)
                        (delta (s (m_dofs sys ! i)) - m_x sys ! i) s) js st d) = isfixed (st d)"
    for js
    by (induction js arbitrary: st) (simp_all add: isfixed_set_delta)
  then show ?thesis by (simp add: update_dofs_def)
qed

lemma isfixed_store_residuals: "isfixed (store_residuals sys st d) = isfixed (st d)"
proof -
  have "isfixed (fold (\<lambda>i s. set_residual (m_dofs sys ! i) (m_residual sys ! i) s) js st d)
          = isfixed (st d)" for js
    by (induction js arbitrary: st) (simp_all add: isfixed_set_residual)
  then show ?thesis by (simp add: store_residuals_def)
qed

lemma newton_iteration_keeps:
  assumes "newton_iteration sv rt xt opts k (sys, st, tr) = Inr r"
    and "r = Break (sys', st', tr') \<or> r = Continue (sys', st', tr')"
  shows "m_dofs sys' = m_dofs sys \<and> m_nb_free_dofs sys' = m_nb_free_dofs sys
         \<and> m_nb_fixed_dofs sys' = m_nb_fixed_dofs sys
         \<and> (\<forall>d. isfixed (st' d) = isfixed (st d))"
  using assms
  by (auto simp: newton_iteration_def Let_def compute_fields isfixed_update_dofs
      split: if_splits option.splits)

lemma solve_loop_keeps:
  "solve_loop sv maxit rt xt opts k s = Inr ((sys', st', tr'), k') \<Longrightarrow> s = (sys, st, tr) \<Longrightarrow>
   m_dofs sys' = m_dofs sys \<and> m_nb_free_dofs sys' = m_nb_free_dofs sys
   \<and> m_nb_fixed_dofs sys' = m_nb_fixed_dofs sys
   \<and> (\<forall>d. isfixed (st' d) = isfixed (st d))"
proof (induction sv maxit rt xt opts k s arbitrary: sys st tr rule: solve_loop.induct)
  case (1 sv maxit rt xt opts k s)
  show ?case
  proof (cases "maxit \<le> k")
    case True
    with "1.prems" show ?thesis by (auto simp: solve_loop.simps)
  next
    case False
    show ?thesis
    proof (cases "newton_iteration sv rt xt opts k s")
      case (Inl e)
      with False "1.prems" show ?thesis by (simp add: solve_loop.simps)
    next
      case (Inr r)
      show ?thesis
      proof (cases r)
        case (Break s1)
        with Inr False "1.prems" have "s1 = (sys', st', tr')"
          by (simp add: solve_loop.simps)
        with Inr Break "1.prems"(2)
          newton_iteration_keeps[of sv rt xt opts k sys st tr r sys' st' tr']
        show ?thesis by simp
      next
        case (Continue s1)
        obtain sys1 st1 tr1 where s1: "s1 = (sys1, st1, tr1)" by (cases s1) auto
        from Inr Continue False "1.prems"(1)
        have rec: "solve_loop sv maxit rt xt (opts\<lparr>iteration := Some k\<rparr>) (k + 1) s1
                   = Inr ((sys', st', tr'), k')"
          by (simp add: solve_loop.simps)
        from Inr Continue s1 "1.prems"(2)
          newton_iteration_keeps[of sv rt xt opts k sys st tr r sys1 st1 tr1]
        have a: "m_dofs sys1 = m_dofs sys \<and> m_nb_free_dofs sys1 = m_nb_free_dofs sys
                 \<and> m_nb_fixed_dofs sys1 = m_nb_fixed_dofs sys
                 \<and> (\<forall>d. isfixed (st1 d) = isfixed (st d))"
          by simp
        from "1.IH"[OF False Inr Continue rec s1] a show ?thesis by simp
      qed
    qed
  qed
qed

lemma solve_keeps:
  assumes "solve sv opts sys st = Inr ((sys', st', tr), k)"
  shows "m_dofs sys' = m_dofs sys \<and> m_nb_free_dofs sys' = m_nb_free_dofs sys
         \<and> m_nb_fixed_dofs sys' = m_nb_fixed_dofs sys
         \<and> (\<forall>d. isfixed (st' d) = isfixed (st d))"
proof -
  let ?s = "setup_target (get_or_default (lambda opts) 1) st sys"
  from assms obtain st1 where
    L: "solve_loop sv (get_or_default (maxiter opts) 100)
          (get_or_default (rtol opts) (1 / 10000000))
          (get_or_default (xtol opts) (1 / 10000000)) opts 0 (?s, st, []) = Inr ((sys', st1, tr), k)"
    and st': "st' = store_residuals sys' st1"
    by (auto simp: solve_def Let_def split: sum.splits)
  from solve_loop_keeps[OF L refl] show ?thesis
    by (simp add: st' isfixed_store_residuals setup_target_fields)
qed

lemma apply_operation_keeps:
  assumes "apply_operation sv oper (sys, st) = Inr (sys', st')"
  shows "m_dofs sys' = m_dofs sys \<and> m_nb_free_dofs sys' = m_nb_free_dofs sys
         \<and> m_nb_fixed_dofs sys' = m_nb_fixed_dofs sys
         \<and> (\<forall>d. isfixed (st' d) = isfixed (st d))"
proof (cases oper)
  case (Compute opts)
  with assms show ?thesis by (auto simp: apply_operation_def compute_fields)
next
  case (ComputeParallel order opts)
  with assms show ?thesis by (auto simp: apply_operation_def compute_parallel_fields)
next
  case (Solve opts)
  with assms obtain tr k where "solve sv opts sys st = Inr ((sys', st', tr), k)"
    by (auto simp: apply_operation_def split: sum.splits)
  then show ?thesis by (rule solve_keeps)
qed

lemma apply_operations_keeps:
  "apply_operations sv opers (sys, st) = Inr (sys', st') \<Longrightarrow>
   m_dofs sys' = m_dofs sys \<and> m_nb_free_dofs sys' = m_nb_free_dofs sys
   \<and> m_nb_fixed_dofs sys' = m_nb_fixed_dofs sys
   \<and> (\<forall>d. isfixed (st' d) = isfixed (st d))"
proof (induction opers arbitrary: sys st)
  case Nil
  then show ?case by simp
next
  case (Cons oper opers)
  from Cons.prems obtain sys1 st1 where
    a: "apply_operation sv oper (sys, st) = Inr (sys1, st1)"
    and b: "apply_operations sv opers (sys1, st1) = Inr (sys', st')"
    by (auto split: sum.splits)
  from apply_operation_keeps[OF a] Cons.IH[OF b] show ?case by simp
qed

section \<open>Assembly keeps the length of the RHS\<close>

lemma scatter_row_length: "length (snd (scatter_row F t loc row acc)) = length (snd acc)"
  by (cases loc; cases acc) (simp add: scatter_row_def Let_def)

lemma add_element_length: "length (snd (add_element F t loc acc)) = length (snd acc)"
proof -
  have "length (snd (fold (scatter_row F t loc) rs acc)) = length (snd acc)" for rs
    by (induction rs arbitrary: acc) (simp_all add: scatter_row_length)
  then show ?thesis by (simp add: add_element_def)
qed

lemma fold_assemble_length:
  "length (snd (fold (assemble_element opts st sys) js acc)) = length (snd acc)"
  by (induction js arbitrary: acc) (simp_all add: assemble_element_def add_element_length)

lemma compute_length_rhs: "length (m_rhs (compute opts st sys)) = length (m_rhs sys)"
  using fold_assemble_length[of opts st sys "[0..<length (m_elements sys)]"
      "(set_values_zero (m_lhs sys), replicate (length (m_rhs sys)) 0)"]
  by (simp add: compute_def Let_def case_prod_beta)

lemma solve_no_free_dofs:
  assumes F: "m_nb_free_dofs sys = 0" and r: "m_rhs sys = []" and t: "m_target sys = []"
    and m: "1 \<le> get_or_default (maxiter opts) 100"
    and rt: "0 < get_or_default (rtol opts) (1 / 10000000)"
  shows "\<exists>sys' st'. solve sv opts sys st
           = Inr ((sys', st', map (ElementCompute 0) [0..<length (m_elements sys)]), 0)
         \<and> m_stopping_reason sys' = 0"
proof -
  let ?lam = "get_or_default (lambda opts) 1"
  let ?s = "setup_target ?lam st sys"
  let ?c = "compute (opts\<lparr>iteration := Some 0\<rparr>) st ?s"
  have ts: "m_target ?s = []" using F t by (simp add: setup_target_def)
  have "length (m_rhs ?c) = 0"
    using r by (simp add: compute_length_rhs setup_target_fields)
  then have rc: "m_rhs ?c = []" by simp
  have it: "newton_iteration sv (get_or_default (rtol opts) (1 / 10000000))
             (get_or_default (xtol opts) (1 / 10000000)) opts 0 (?s, st, [])
           = Inr (Break (?c\<lparr>m_residual := [], m_stopping_reason := 0\<rparr>, st,
                         map (ElementCompute 0) [0..<length (m_elements sys)]))"
    using rt by (simp add: newton_iteration_def Let_def rc norm2_Nil setup_target_fields)
  from m have "\<not> get_or_default (maxiter opts) 100 \<le> 0" by simp
  then show ?thesis using it
    by (simp add: solve_def Let_def solve_loop.simps)
qed

section \<open>Facts about the pattern analysis\<close>

lemma element_pairs_iff:
  "(a, b) \<in> element_pairs F tables \<longleftrightarrow>
     (\<exists>t\<in>set tables. \<exists>r c. r \<le> c \<and> c < length t \<and> global (t ! r) < F \<and> global (t ! c) < F
        \<and> a = global (t ! r) \<and> b = global (t ! c))"
proof -
  have aux: "(x \<in> (if P then {y} else {})) = (P \<and> x = y)" for x y :: "nat \<times> nat" and P
    by simp
  show ?thesis
    unfolding element_pairs_def UN_iff aux Bex_def atLeastLessThan_iff atLeastAtMost_iff
    by blast
qed

lemma pattern_pairs_iff:
  "(a, b) \<in> pattern_pairs p \<longleftrightarrow> b < length p \<and> a \<in> set (p ! b)"
  by (auto simp: pattern_pairs_def)

lemma set_set_insert: "set (set_insert x s) = insert x (set s)"
  by (simp add: set_insert_def set_insort_key insert_absorb)

lemma pattern_col_length: "length (pattern_col F t row col p) = length p"
  by (simp add: pattern_col_def Let_def)

lemma pattern_col_pairs:
  assumes "length p = F"
  shows "pattern_pairs (pattern_col F t row col p) =
           pattern_pairs p \<union> (if global (t ! col) < F then {(global (t ! row), global (t ! col))} else {})"
proof (cases "global (t ! col) < F")
  case False
  then show ?thesis by (simp add: pattern_col_def Let_def)
next
  case True
  have "(a, b) \<in> pattern_pairs (pattern_col F t row col p) \<longleftrightarrow>
        (a, b) \<in> pattern_pairs p \<or> (a, b) = (global (t ! row), global (t ! col))" for a b
    using True assms
    by (cases "b = global (t ! col)")
       (auto simp: pattern_pairs_iff pattern_col_def Let_def set_set_insert)
  with True show ?thesis by auto
qed

lemma fold_pattern_col:
  assumes "length p = F"
  shows "length (fold (pattern_col F t row) cs p) = F
       \<and> pattern_pairs (fold (pattern_col F t row) cs p) =
           pattern_pairs p \<union> {(global (t ! row), global (t ! c)) | c. c \<in> set cs \<and> global (t ! c) < F}"
  using assms
proof (induction cs arbitrary: p)
  case Nil
  then show ?case by simp
next
  case (Cons c cs)
  have l: "length (pattern_col F t row c p) = F" using Cons.prems by (simp add: pattern_col_length)
  from Cons.IH[OF l] pattern_col_pairs[OF Cons.prems, of t row c]
  show ?case by auto
qed

lemma pattern_row_pairs:
  assumes "length p = F"
  shows "length (pattern_row F t row p) = F
       \<and> pattern_pairs (pattern_row F t row p) =
           pattern_pairs p \<union> {(global (t ! row), global (t ! c)) | c.
              row \<le> c \<and> c < length t \<and> global (t ! row) < F \<and> global (t ! c) < F}"
proof (cases "global (t ! row) < F")
  case False
  with assms show ?thesis by (auto simp: pattern_row_def)
next
  case True
  with fold_pattern_col[OF assms, of t row "[row..<length t]"]
  show ?thesis by (auto simp: pattern_row_def)
qed

lemma fold_pattern_row:
  assumes "length p = F"
  shows "length (fold (pattern_row F t) rs p) = F
       \<and> pattern_pairs (fold (pattern_row F t) rs p) =
           pattern_pairs p \<union> {(global (t ! r), global (t ! c)) | r c.
              r \<in> set rs \<and> r \<le> c \<and> c < length t \<and> global (t ! r) < F \<and> global (t ! c) < F}"
  using assms
proof (induction rs arbitrary: p)
  case Nil
  then show ?case by simp
next
  case (Cons r rs)
  note a = pattern_row_pairs[OF Cons.prems, of t r]
  from a have l: "length (pattern_row F t r p) = F" by simp
  from Cons.IH[OF l] a show ?case by auto
qed

lemma fold_tables_pattern:
  assumes "length p = F"
  shows "length (fold (\<lambda>t p. fold (pattern_row F t) [0..<length t] p) ts p) = F
       \<and> pattern_pairs (fold (\<lambda>t p. fold (pattern_row F t) [0..<length t] p) ts p) =
           pattern_pairs p \<union> element_pairs F ts"
  using assms
proof (induction ts arbitrary: p)
  case Nil
  then show ?case by (simp add: element_pairs_def)
next
  case (Cons t ts)
  note a = fold_pattern_row[OF Cons.prems, of t "[0..<length t]"]
  from a have l: "length (fold (pattern_row F t) [0..<length t] p) = F" by simp
  have split: "element_pairs F (t # ts) =
      {(global (t ! r), global (t ! c)) | r c.
          r \<in> set [0..<length t] \<and> r \<le> c \<and> c < length t \<and> global (t ! r) < F \<and> global (t ! c) < F}
      \<union> element_pairs F ts"
  proof (intro set_eqI, simp only: split_paired_all)
    fix a b
    have "r \<le> c \<and> c < length t \<longleftrightarrow> r \<in> set [0..<length t] \<and> r \<le> c \<and> c < length t"
      for r c by auto
    then show "(a, b) \<in> element_pairs F (t # ts) \<longleftrightarrow>
      (a, b) \<in> {(global (t ! r), global (t ! c)) | r c.
          r \<in> set [0..<length t] \<and> r \<le> c \<and> c < length t \<and> global (t ! r) < F \<and> global (t ! c) < F}
      \<union> element_pairs F ts"
      unfolding Un_iff element_pairs_iff[of a b F ts] element_pairs_iff[of a b F "t # ts"]
      by (simp add: conj_ac) blast
  qed
  from Cons.IH[OF l] a show ?case unfolding split by auto
qed

lemma analyze_pattern_pairs:
  "length (analyze_pattern F tables) = F"
  "pattern_pairs (analyze_pattern F tables) = element_pairs F tables"
proof -
  have e: "pattern_pairs (replicate F []) = {}" by (auto simp: pattern_pairs_iff)
  from fold_tables_pattern[of "replicate F []" F tables] e
  show "length (analyze_pattern F tables) = F"
    and "pattern_pairs (analyze_pattern F tables) = element_pairs F tables"
    by (simp_all add: analyze_pattern_def)
qed

lemma fold_sparse_insert:
  "rows (fold (\<lambda>row M. sparse_insert row col M) rs M) = rows M
   \<and> cols (fold (\<lambda>row M. sparse_insert row col M) rs M) = cols M
   \<and> dom (coeffs (fold (\<lambda>row M. sparse_insert row col M) rs M))
       = dom (coeffs M) \<union> {(r, col) | r. r \<in> set rs}"
  by (induction rs arbitrary: M) (auto simp: sparse_insert_def)

lemma fold_insert_cols:
  "rows (fold (\<lambda>col M1. fold (\<lambda>row M2. sparse_insert row col M2) (p ! col) M1) cs M) = rows M
   \<and> cols (fold (\<lambda>col M1. fold (\<lambda>row M2. sparse_insert row col M2) (p ! col) M1) cs M) = cols M
   \<and> dom (coeffs (fold (\<lambda>col M1. fold (\<lambda>row M2. sparse_insert row col M2) (p ! col) M1) cs M))
       = dom (coeffs M) \<union> {(r, c) | r c. c \<in> set cs \<and> r \<in> set (p ! c)}"
proof (induction cs arbitrary: M)
  case Nil
  then show ?case by simp
next
  case (Cons c cs)
  note a = fold_sparse_insert[of c "p ! c" M]
  note b = Cons.IH[of "fold (\<lambda>row M2. sparse_insert row c M2) (p ! c) M"]
  from a b show ?case by auto
qed

lemma insert_pattern_nonzeros:
  "rows (insert_pattern p M) = rows M"
  "cols (insert_pattern p M) = cols M"
  "structural_nonzeros (insert_pattern p M) = structural_nonzeros M \<union> pattern_pairs p"
  using fold_insert_cols[of p "[0..<length p]" M]
  by (auto simp: insert_pattern_def structural_nonzeros_def pattern_pairs_iff)

lemma Sparse_empty_nonzeros: "structural_nonzeros (Sparse_empty r c) = {}"
  by (simp add: structural_nonzeros_def Sparse_empty_def)

lemma make_index_table_sorted:
  assumes "std_sort_spec srt"
  shows "sorted (map global (make_index_table srt m ds))"
  using assms by (simp add: std_sort_spec_def make_index_table_def)

lemma element_pairs_upper:
  assumes "\<forall>t\<in>set tables. sorted (map global t)" and "(a, b) \<in> element_pairs F tables"
  shows "a \<le> b \<and> b < F"
proof -
  from assms(2) obtain t r c where t: "t \<in> set tables" and rc: "r \<le> c" "c < length t"
    and F: "global (t ! c) < F" and ab: "a = global (t ! r)" "b = global (t ! c)"
    by (auto simp: element_pairs_iff)
  from assms(1) t have "sorted (map global t)" by blast
  from sorted_nth_mono[OF this, of r c] rc have "global (t ! r) \<le> global (t ! c)" by simp
  with F ab show ?thesis by simp
qed

lemma shared_dofs_indices: "make_dof_indices [0, 1] = [0 \<mapsto> 0, 1 \<mapsto> 1]"
    by (simp add: make_dof_indices_def numeral_2_eq_2)

lemma shared_dofs_unique: "unique_dofs zero_store (map element_dofs [two_dof_element, one_dof_element])
           = ({0, 1}, [0, 1], [])"
    by (auto simp: unique_dofs_def add_dof_def two_dof_element_def one_dof_element_def
        constant_element_def zero_store_def)

lemma shared_dofs_tables: "map (make_index_table stable_sort (make_dof_indices ([0, 1] @ [])))
           (map element_dofs [two_dof_element, one_dof_element])
       = [[\<lparr>local = 0, global = 0\<rparr>, \<lparr>local = 1, global = 1\<rparr>], [\<lparr>local = 0, global = 0\<rparr>]]"
  by (simp add: make_dof_indices_def make_index_table_def index_of_def stable_sort_def
        two_dof_element_def one_dof_element_def constant_element_def numeral_2_eq_2)

lemma shared_dofs_pairs: "element_pairs 2 [[\<lparr>local = 0, global = 0\<rparr>, \<lparr>local = 1, global = 1\<rparr>],
                                 [\<lparr>local = 0, global = 0\<rparr>]] = {(0, 0), (0, 1), (1, 1)}"
  by (simp add: element_pairs_def numeral_2_eq_2 atLeast0_lessThan_Suc atLeast0_atMost_Suc insert_commute)

section \<open>The assembly only adds\<close>

lemma adds_lhs_id: "adds_lhs (\<lambda>M. M)"
  unfolding adds_lhs_def by (intro exI[of _ "{}"] exI[of _ "\<lambda>_. 0"]) simp

lemma adds_lhs_coeffRef_add: "adds_lhs (coeffRef_add r c v)"
  unfolding adds_lhs_def
  by (intro exI[of _ "{(r, c)}"] exI[of _ "\<lambda>k. if k = (r, c) then v else 0"])
     (auto simp: coeffRef_add_def lhs_value_def)

lemma adds_lhs_comp:
  assumes "adds_lhs H1" and "adds_lhs H2"
  shows "adds_lhs (\<lambda>M. H2 (H1 M))"
proof -
  from assms(1) obtain K1 S1 where 1: "\<forall>M. rows (H1 M) = rows M \<and> cols (H1 M) = cols M
        \<and> dom (coeffs (H1 M)) = dom (coeffs M) \<union> K1
        \<and> (\<forall>k. lhs_value (H1 M) k = lhs_value M k + S1 k)"
    unfolding adds_lhs_def by blast
  from assms(2) obtain K2 S2 where 2: "\<forall>M. rows (H2 M) = rows M \<and> cols (H2 M) = cols M
        \<and> dom (coeffs (H2 M)) = dom (coeffs M) \<union> K2
        \<and> (\<forall>k. lhs_value (H2 M) k = lhs_value M k + S2 k)"
    unfolding adds_lhs_def by blast
  show ?thesis unfolding adds_lhs_def
    by (intro exI[of _ "K1 \<union> K2"] exI[of _ "\<lambda>k. S1 k + S2 k"]) (auto simp: 1 2)
qed

lemma adds_lhs_fold:
  assumes "\<And>x. x \<in> set xs \<Longrightarrow> adds_lhs (f x)"
  shows "adds_lhs (fold f xs)"
  using assms
proof (induction xs)
  case Nil
  then show ?case using adds_lhs_id by (simp add: id_def)
next
  case (Cons x xs)
  have "adds_lhs (\<lambda>M. fold f xs (f x M))"
    by (rule adds_lhs_comp) (simp_all add: Cons)
  then show ?case by (simp add: comp_def)
qed

lemma adds_lhs_scatter_col: "adds_lhs (scatter_col F t local_lhs row col)"
proof (cases "global (t ! col) \<ge> F")
  case True
  then have "scatter_col F t local_lhs row col = (\<lambda>M. M)"
    by (auto simp: scatter_col_def Let_def)
  then show ?thesis by (simp add: adds_lhs_id)
next
  case False
  then have "scatter_col F t local_lhs row col =
      coeffRef_add (global (t ! row)) (global (t ! col))
        (local_lhs ! local (t ! row) ! local (t ! col))"
    by (auto simp: scatter_col_def Let_def)
  then show ?thesis by (simp add: adds_lhs_coeffRef_add)
qed

lemma Sparse_eqI:
  assumes "rows A = rows B" "cols A = cols B" "dom (coeffs A) = dom (coeffs B)"
    "\<forall>k. lhs_value A k = lhs_value B k"
  shows "A = (B :: Sparse)"
proof -
  have "coeffs A k = coeffs B k" for k
  proof (cases "coeffs A k")
    case None
    with assms(3) show ?thesis by (metis domIff)
  next
    case (Some a)
    with assms(3) obtain b where b: "coeffs B k = Some b" by (metis domIff not_Some_eq)
    with Some assms(4)[rule_format, of k] show ?thesis by (simp add: lhs_value_def)
  qed
  then have "coeffs A = coeffs B" by (rule ext)
  with assms(1,2) show ?thesis by simp
qed

lemma adds_to_id: "adds_to (\<lambda>acc. acc)"
  unfolding adds_to_def
  by (intro exI[of _ "\<lambda>M. M"] exI[of _ "\<lambda>_. 0"]) (simp add: adds_lhs_id)

lemma adds_to_comp:
  assumes "adds_to G1" and "adds_to G2"
  shows "adds_to (\<lambda>acc. G2 (G1 acc))"
proof -
  from assms(1) obtain H1 D1 where 1: "adds_lhs H1"
    "\<And>M b. fst (G1 (M, b)) = H1 M" "\<And>M b. length (snd (G1 (M, b))) = length b"
    "\<And>M b i. i < length b \<Longrightarrow> snd (G1 (M, b)) ! i = b ! i + D1 i"
    unfolding adds_to_def by blast
  from assms(2) obtain H2 D2 where 2: "adds_lhs H2"
    "\<And>M b. fst (G2 (M, b)) = H2 M" "\<And>M b. length (snd (G2 (M, b))) = length b"
    "\<And>M b i. i < length b \<Longrightarrow> snd (G2 (M, b)) ! i = b ! i + D2 i"
    unfolding adds_to_def by blast
  have e: "G1 (M, b) = (H1 M, snd (G1 (M, b)))" for M b
    using 1(2)[of M b] by (simp add: prod_eq_iff)
  have a: "fst (G2 (G1 (M, b))) = H2 (H1 M)" for M b
    by (subst e) (simp add: 2(2))
  have l: "length (snd (G2 (G1 (M, b)))) = length b" for M b
    by (subst e) (simp add: 2(3) 1(3))
  have n: "snd (G2 (G1 (M, b))) ! i = b ! i + (D1 i + D2 i)" if "i < length b" for M b i
    using that by (subst e) (simp add: 2(4) 1(3) 1(4))
  show ?thesis unfolding adds_to_def
    using adds_lhs_comp[OF 1(1) 2(1)] a l n
    by (intro exI[of _ "\<lambda>M. H2 (H1 M)"] exI[of _ "\<lambda>i. D1 i + D2 i"]) simp
qed

lemma adds_to_fold:
  assumes "\<And>x. x \<in> set xs \<Longrightarrow> adds_to (f x)"
  shows "adds_to (fold f xs)"
  using assms
proof (induction xs)
  case Nil
  then show ?case using adds_to_id by (simp add: id_def)
next
  case (Cons x xs)
  have "adds_to (\<lambda>acc. fold f xs (f x acc))"
    by (rule adds_to_comp) (simp_all add: Cons)
  then show ?case by (simp add: comp_def)
qed

lemma adds_to_scatter_row: "adds_to (scatter_row F t loc row)"
proof (cases "global (t ! row) \<ge> F")
  case True
  then have "scatter_row F t loc row = (\<lambda>acc. acc)"
    by (auto simp: scatter_row_def Let_def split: prod.splits)
  then show ?thesis by (simp add: adds_to_id)
next
  case False
  obtain A v where loc: "loc = (A, v)" by (cases loc)
  let ?H = "fold (scatter_col F t A row) [row..<length t]"
  let ?g = "global (t ! row)"
  let ?D = "\<lambda>i. if i = ?g then v ! local (t ! row) else 0"
  have H: "adds_lhs ?H" by (rule adds_lhs_fold) (rule adds_lhs_scatter_col)
  have r: "scatter_row F t loc row (M, b) = (?H M, b[?g := b ! ?g + v ! local (t ! row)])"
    for M b
    using False by (simp add: scatter_row_def Let_def loc)
  show ?thesis unfolding adds_to_def
    using H by (intro exI[of _ ?H] exI[of _ ?D]) (simp add: r nth_list_update)
qed

lemma adds_to_independent:
  assumes "adds_to G"
  shows "snd (G (M, b)) = snd (G (M1, b))"
proof -
  from assms obtain D where "\<And>M b. length (snd (G (M, b))) = length b"
    "\<And>M b i. i < length b \<Longrightarrow> snd (G (M, b)) ! i = b ! i + D i"
    unfolding adds_to_def by blast
  then show ?thesis by (intro nth_equalityI) simp_all
qed

lemma adds_to_commute:
  assumes "adds_to G1" and "adds_to G2"
  shows "G1 (G2 acc) = G2 (G1 acc)"
proof -
  obtain M b where acc: "acc = (M, b)" by (cases acc)
  from assms(1) obtain H1 D1 where h1: "adds_lhs H1" and a1:
    "\<And>M b. fst (G1 (M, b)) = H1 M" "\<And>M b. length (snd (G1 (M, b))) = length b"
    "\<And>M b i. i < length b \<Longrightarrow> snd (G1 (M, b)) ! i = b ! i + D1 i"
    unfolding adds_to_def by blast
  from h1 obtain K1 S1 where k1: "\<forall>M. rows (H1 M) = rows M \<and> cols (H1 M) = cols M
        \<and> dom (coeffs (H1 M)) = dom (coeffs M) \<union> K1
        \<and> (\<forall>k. lhs_value (H1 M) k = lhs_value M k + S1 k)"
    unfolding adds_lhs_def by blast
  from assms(2) obtain H2 D2 where h2: "adds_lhs H2" and a2:
    "\<And>M b. fst (G2 (M, b)) = H2 M" "\<And>M b. length (snd (G2 (M, b))) = length b"
    "\<And>M b i. i < length b \<Longrightarrow> snd (G2 (M, b)) ! i = b ! i + D2 i"
    unfolding adds_to_def by blast
  from h2 obtain K2 S2 where k2: "\<forall>M. rows (H2 M) = rows M \<and> cols (H2 M) = cols M
        \<and> dom (coeffs (H2 M)) = dom (coeffs M) \<union> K2
        \<and> (\<forall>k. lhs_value (H2 M) k = lhs_value M k + S2 k)"
    unfolding adds_lhs_def by blast
  note 1 = a1 k1[rule_format, THEN conjunct1] k1[rule_format, THEN conjunct2, THEN conjunct1]
    k1[rule_format, THEN conjunct2, THEN conjunct2, THEN conjunct1]
    k1[rule_format, THEN conjunct2, THEN conjunct2, THEN conjunct2, rule_format]
  note 2 = a2 k2[rule_format, THEN conjunct1] k2[rule_format, THEN conjunct2, THEN conjunct1]
    k2[rule_format, THEN conjunct2, THEN conjunct2, THEN conjunct1]
    k2[rule_format, THEN conjunct2, THEN conjunct2, THEN conjunct2, rule_format]
  define b1 where "b1 = snd (G1 (M, b))"
  define b2 where "b2 = snd (G2 (M, b))"
  have g1: "G1 (M, b) = (H1 M, b1)" using 1(1)[of M b] by (simp add: prod_eq_iff b1_def)
  have g2: "G2 (M, b) = (H2 M, b2)" using 2(1)[of M b] by (simp add: prod_eq_iff b2_def)
  have l1: "length b1 = length b" unfolding b1_def by (rule 1(2))
  have l2: "length b2 = length b" unfolding b2_def by (rule 2(2))
  have n1: "b1 ! i = b ! i + D1 i" if "i < length b" for i
    unfolding b1_def using that by (rule 1(3))
  have n2: "b2 ! i = b ! i + D2 i" if "i < length b" for i
    unfolding b2_def using that by (rule 2(3))
  have "rows (H1 (H2 M)) = rows (H2 (H1 M))" by (simp only: 1(4) 2(4))
  moreover have "cols (H1 (H2 M)) = cols (H2 (H1 M))" by (simp only: 1(5) 2(5))
  moreover have "dom (coeffs (H1 (H2 M))) = dom (coeffs (H2 (H1 M)))"
    by (simp only: 1(6) 2(6) Un_assoc Un_commute[of K1 K2])
  moreover have "\<forall>k. lhs_value (H1 (H2 M)) k = lhs_value (H2 (H1 M)) k"
    by (simp only: 1(7) 2(7)) simp
  ultimately have H: "H1 (H2 M) = H2 (H1 M)" by (rule Sparse_eqI)
  have f: "fst (G1 (G2 (M, b))) = fst (G2 (G1 (M, b)))"
    unfolding g1 g2 by (simp only: 1(1) 2(1) H)
  have s: "snd (G1 (G2 (M, b))) = snd (G2 (G1 (M, b)))"
    unfolding g1 g2
  proof (rule nth_equalityI)
    show "length (snd (G1 (H2 M, b2))) = length (snd (G2 (H1 M, b1)))"
      by (simp only: 1(2) 2(2) l1 l2)
    fix i assume "i < length (snd (G1 (H2 M, b2)))"
    then have i: "i < length b" by (simp only: 1(2) l2)
    from i have "snd (G1 (H2 M, b2)) ! i = b2 ! i + D1 i" by (intro 1(3)) (simp only: l2)
    moreover from i have "snd (G2 (H1 M, b1)) ! i = b1 ! i + D2 i"
      by (intro 2(3)) (simp only: l1)
    ultimately show "snd (G1 (H2 M, b2)) ! i = snd (G2 (H1 M, b1)) ! i"
      using n1[OF i] n2[OF i] by simp
  qed
  from f s show ?thesis by (simp add: acc prod_eq_iff)
qed

lemma adds_to_add_element: "adds_to (add_element F t loc)"
  unfolding add_element_def by (rule adds_to_fold) (rule adds_to_scatter_row)

lemma adds_to_assemble_element: "adds_to (assemble_element opts st sys i)"
proof -
  have "assemble_element opts st sys i =
      add_element (m_nb_free_dofs sys) (m_index_table sys ! i)
        (element_compute (m_elements sys ! i) opts st)"
    by (rule ext) (simp add: assemble_element_def)
  then show ?thesis by (simp add: adds_to_add_element)
qed

lemma adds_to_assemble: "adds_to (fold (assemble_element opts st sys) js)"
  by (rule adds_to_fold) (rule adds_to_assemble_element)

lemma adds_to_rezero:
  assumes G: "adds_to G"
  shows "G (set_values_zero (fst (G (set_values_zero L, b))), b) = G (set_values_zero L, b)"
proof -
  from G obtain H D where H: "adds_lhs H" and f: "\<And>M b. fst (G (M, b)) = H M"
    unfolding adds_to_def by blast
  from H obtain K S where KS: "\<forall>M. rows (H M) = rows M \<and> cols (H M) = cols M
        \<and> dom (coeffs (H M)) = dom (coeffs M) \<union> K
        \<and> (\<forall>k. lhs_value (H M) k = lhs_value M k + S k)"
    unfolding adds_lhs_def by blast
  let ?Z = set_values_zero
  have z: "rows (?Z M) = rows M" "cols (?Z M) = cols M" "dom (coeffs (?Z M)) = dom (coeffs M)"
    "lhs_value (?Z M) k = 0" for M k
    by (auto simp: set_values_zero_def lhs_value_def domIff split: option.splits)
  have "H (?Z (H (?Z L))) = H (?Z L)"
    by (rule Sparse_eqI) (auto simp: KS z)
  then have "fst (G (?Z (fst (G (?Z L, b))), b)) = fst (G (?Z L, b))" by (simp add: f)
  moreover have "snd (G (?Z (fst (G (?Z L, b))), b)) = snd (G (?Z L, b))"
    by (rule adds_to_independent[OF G])
  ultimately show ?thesis by (simp add: prod_eq_iff)
qed

lemma assemble_element_compute:
  "assemble_element opts st (compute opts1 st1 sys) = assemble_element opts st sys"
  by (intro ext) (simp add: assemble_element_def compute_fields)

lemma compute_idempotent: "compute opts st (compute opts st sys) = compute opts st sys"
proof -
  let ?G = "fold (assemble_element opts st sys) [0..<length (m_elements sys)]"
  let ?b = "replicate (length (m_rhs sys)) 0"
  let ?r = "?G (set_values_zero (m_lhs sys), ?b)"
  have c: "compute opts st sys = sys\<lparr>m_lhs := fst ?r, m_rhs := snd ?r\<rparr>"
    by (simp add: compute_def Let_def case_prod_beta)
  have l: "length (snd ?r) = length (m_rhs sys)"
    by (simp add: fold_assemble_length)
  have again: "?G (set_values_zero (fst ?r), ?b) = ?r"
    by (rule adds_to_rezero) (rule adds_to_assemble)
  have "compute opts st (compute opts st sys) =
      (compute opts st sys)\<lparr>m_lhs := fst (?G (set_values_zero (fst ?r), ?b)),
                             m_rhs := snd (?G (set_values_zero (fst ?r), ?b))\<rparr>"
    unfolding compute_def[of opts st "compute opts st sys"]
    by (simp add: Let_def case_prod_beta assemble_element_compute compute_fields
        compute_length_rhs) (simp add: c)
  then show ?thesis by (simp add: again c)
qed

section \<open>The order of the elements does not matter\<close>

lemma fold_assemble_permuted:
  assumes "mset order = mset js"
  shows "fold (assemble_element opts st sys) order acc = fold (assemble_element opts st sys) js acc"
  by (rule fold_permuted_eq[where P="\<lambda>_. True", OF assms])
     (simp_all add: adds_to_commute[OF adds_to_assemble_element adds_to_assemble_element])

lemma compute_parallel_after_zeroing:
  assumes "mset order = mset [0..<length (m_elements sys)]"
  shows "compute_parallel order opts st
           (sys\<lparr>m_lhs := set_values_zero (m_lhs sys), m_rhs := replicate (length (m_rhs sys)) 0\<rparr>)
         = compute opts st sys"
proof -
  let ?z = "sys\<lparr>m_lhs := set_values_zero (m_lhs sys), m_rhs := replicate (length (m_rhs sys)) 0\<rparr>"
  have "assemble_element opts st ?z = assemble_element opts st sys"
    by (intro ext) (simp add: assemble_element_def)
  then show ?thesis
    by (simp add: compute_parallel_def compute_def Let_def fold_assemble_permuted[OF assms])
qed

section \<open>The Newton driver: iteration limit at entry\<close>

text \<open>
  Claim C9. When the option bag gives \<open>maxiter \<le> 0\<close>, \<^verbatim>\<open>solve\<close> sets the stopping
  reason to IterationLimit (2) and returns with an empty record of calls: no element's
  \<^verbatim>\<open>compute\<close>, no \<^verbatim>\<open>set_matrix\<close>, no \<^verbatim>\<open>solve\<close> of the linear solver and no
  \<^verbatim>\<open>set_delta\<close>; the \<open>delta\<close> of every DoF, the LHS, the RHS and the correction are
  what they were, because the check of the iteration limit comes first in the loop body.
\<close>

theorem solve_maxiter_nonpositive:
  assumes "maxiter opts = Some m" and "m \<le> 0"
  shows "\<exists>sys' st'. solve sv opts sys st = Inr ((sys', st', []), 0)
           \<and> m_stopping_reason sys' = 2
           \<and> (\<forall>d. delta (st' d) = delta (st d))
           \<and> m_lhs sys' = m_lhs sys \<and> m_rhs sys' = m_rhs sys \<and> m_x sys' = m_x sys"
  using solve_limit_at_entry[OF assms, of sv sys st]
  by (simp add: delta_store_residuals setup_target_fields)

theorem solve_maxiter_nonpositive_witness:
  "maxiter (ldlt_options\<lparr>maxiter := Some 0\<rparr>) = Some 0 \<and> (0::int) \<le> 0
   \<and> (\<exists>sys' st'. solve exact_solver (ldlt_options\<lparr>maxiter := Some 0\<rparr>) one_dof_system zero_store
                    = Inr ((sys', st', []), 0)
         \<and> m_stopping_reason sys' = 2
         \<and> (\<forall>d. delta (st' d) = delta (zero_store d))
         \<and> m_lhs sys' = m_lhs one_dof_system \<and> m_rhs sys' = m_rhs one_dof_system
         \<and> m_x sys' = m_x one_dof_system)"
  using solve_maxiter_nonpositive[of "ldlt_options\<lparr>maxiter := Some 0\<rparr>" 0 exact_solver
      one_dof_system zero_store]
  by simp

section \<open>The Newton driver: stopping reasons\<close>

text \<open>
  Claim C1, as amended. Whenever \<^verbatim>\<open>solve\<close> returns: with stopping reason 0 the 2-norm
  of \<open>rhs - target\<close> at exit is below \<open>rtol\<close>; with stopping reason 1 the last correction
  \<open>x\<close> has a 2-norm below \<open>xtol\<close>; with stopping reason 2 the loop counter at exit is
  \<open>max 0 maxiter\<close> and the calls made are exactly those of that many passes through the
  whole body (every element's \<^verbatim>\<open>compute\<close>, \<^verbatim>\<open>set_matrix\<close>, \<^verbatim>\<open>solve\<close>, the
  update of every free DoF), one pass per iteration number from 0. No other stopping
  reason occurs.
\<close>

theorem solve_stopping_correct:
  assumes "solve sv opts sys st = Inr ((sys', st', tr), k)"
  shows "(m_stopping_reason sys' = 0 \<longrightarrow>
            norm2 (map2 (-) (m_rhs sys') (m_target sys')) < get_or_default (rtol opts) (1 / 10000000))
       \<and> (m_stopping_reason sys' = 1 \<longrightarrow>
            norm2 (m_x sys') < get_or_default (xtol opts) (1 / 10000000))
       \<and> (m_stopping_reason sys' = 2 \<longrightarrow>
            k = max 0 (get_or_default (maxiter opts) 100)
            \<and> tr = concat (map (iteration_events (length (m_elements sys)) (m_nb_free_dofs sys))
                            [0..k - 1]))
       \<and> m_stopping_reason sys' \<in> {0, 1, 2}"
proof -
  let ?lam = "get_or_default (lambda opts) 1"
  let ?s = "setup_target ?lam st sys"
  from assms obtain st1 where
    L: "solve_loop sv (get_or_default (maxiter opts) 100)
          (get_or_default (rtol opts) (1 / 10000000))
          (get_or_default (xtol opts) (1 / 10000000)) opts 0 (?s, st, []) = Inr ((sys', st1, tr), k)"
    by (auto simp: solve_def Let_def split: sum.splits)
  from solve_loop_stops[OF L refl] show ?thesis
    by (simp add: setup_target_fields)
qed

theorem solve_stopping_correct_witness:
  "(\<exists>sys' st' tr k.
      solve exact_solver (ldlt_options\<lparr>rtol := Some 2\<rparr>) one_dof_system zero_store
        = Inr ((sys', st', tr), k)
      \<and> m_stopping_reason sys' = 0
      \<and> m_rhs sys' = [1] \<and> m_target sys' = [0]
      \<and> norm2 (map2 (-) (m_rhs sys') (m_target sys')) < 2)
   \<and> (\<exists>sys' st' tr k.
      solve exact_solver (ldlt_options\<lparr>xtol := Some 1\<rparr>) one_dof_system zero_store
        = Inr ((sys', st', tr), k)
      \<and> m_stopping_reason sys' = 1
      \<and> m_x sys' = [1 / 2]
      \<and> norm2 (m_x sys') < 1)
   \<and> (\<exists>sys' st' tr k.
      solve exact_solver (ldlt_options\<lparr>maxiter := Some 2\<rparr>) one_dof_system zero_store
        = Inr ((sys', st', tr), k)
      \<and> m_stopping_reason sys' = 2
      \<and> k = 2
      \<and> tr = [ElementCompute 0 0, SetMatrix, SolverSolve, SetDelta 0,
               ElementCompute 1 0, SetMatrix, SolverSolve, SetDelta 0])"
proof (intro conjI)
  let ?opts = "ldlt_options\<lparr>rtol := Some 2\<rparr>"
  have "\<exists>sys' st'. solve exact_solver ?opts one_dof_system zero_store
            = Inr ((sys', st', [ElementCompute 0 0]), 0)
          \<and> m_stopping_reason sys' = 0 \<and> m_rhs sys' = [1] \<and> m_target sys' = [0]"
    by (rule one_dof_solve_residual[where e=one_dof_element and sys=one_dof_system and d=0],
        rule one_dof_element_constant, rule one_dof_system_inv)
       (simp_all add: zero_store_def ldlt_options_def no_options_def get_or_default_def)
  then obtain sys' st' tr where
    run: "solve exact_solver ?opts one_dof_system zero_store = Inr ((sys', st', tr), 0)"
    and r: "m_stopping_reason sys' = 0" and v: "m_rhs sys' = [1]" "m_target sys' = [0]"
    by blast
  from solve_stopping_correct[OF run] r
  have "norm2 (map2 (-) (m_rhs sys') (m_target sys')) < 2"
    by (simp add: ldlt_options_def no_options_def get_or_default_def)
  with run r v
  show "\<exists>sys' st' tr k.
      solve exact_solver ?opts one_dof_system zero_store = Inr ((sys', st', tr), k)
      \<and> m_stopping_reason sys' = 0
      \<and> m_rhs sys' = [1] \<and> m_target sys' = [0]
      \<and> norm2 (map2 (-) (m_rhs sys') (m_target sys')) < 2"
    by blast
next
  let ?opts = "ldlt_options\<lparr>xtol := Some 1\<rparr>"
  have "\<exists>sys' st'. solve exact_solver ?opts one_dof_system zero_store
            = Inr ((sys', st', iteration_events 1 1 0), 0)
          \<and> m_stopping_reason sys' = 1 \<and> m_x sys' = [1 / 2]
          \<and> delta (st' 0) = delta (zero_store 0) - 1 / 2"
    by (rule one_dof_solve_step[where e=one_dof_element and sys=one_dof_system],
        rule one_dof_element_constant, rule exact_solver_ldlt, rule one_dof_system_inv)
       (simp_all add: zero_store_def ldlt_options_def no_options_def get_or_default_def)
  then obtain sys' st' tr where
    run: "solve exact_solver ?opts one_dof_system zero_store = Inr ((sys', st', tr), 0)"
    and r: "m_stopping_reason sys' = 1" and x: "m_x sys' = [1 / 2]"
    by blast
  from solve_stopping_correct[OF run] r
  have "norm2 (m_x sys') < 1"
    by (simp add: ldlt_options_def no_options_def get_or_default_def)
  with run r x
  show "\<exists>sys' st' tr k.
      solve exact_solver ?opts one_dof_system zero_store = Inr ((sys', st', tr), k)
      \<and> m_stopping_reason sys' = 1 \<and> m_x sys' = [1 / 2] \<and> norm2 (m_x sys') < 1"
    by blast
next
  let ?opts = "ldlt_options\<lparr>maxiter := Some 2\<rparr>"
  have "\<exists>sys' st'. solve exact_solver ?opts one_dof_system zero_store =
            Inr ((sys', st', concat (map (iteration_events 1 1) [0..2 - 1])), 2)
          \<and> m_stopping_reason sys' = 2 \<and> delta (st' 0) = delta (zero_store 0) - real_of_int 2 / 2"
    by (rule one_dof_solve_limit[where e=one_dof_element and sys=one_dof_system],
        rule one_dof_element_constant, rule exact_solver_ldlt, rule one_dof_system_inv)
       (simp_all add: zero_store_def ldlt_options_def no_options_def get_or_default_def)
  then obtain sys' st' tr where
    run: "solve exact_solver ?opts one_dof_system zero_store = Inr ((sys', st', tr), 2)"
    and r: "m_stopping_reason sys' = 2" by blast
  from solve_stopping_correct[OF run] r
  have "tr = concat (map (iteration_events (length (m_elements one_dof_system))
                       (m_nb_free_dofs one_dof_system)) [0..2 - 1])"
    by simp
  then have "tr = [ElementCompute 0 0, SetMatrix, SolverSolve, SetDelta 0,
                   ElementCompute 1 0, SetMatrix, SolverSolve, SetDelta 0]"
    by (simp add: one_dof_system_def iteration_events_def upto_rec1)
  with run r
  show "\<exists>sys' st' tr k.
      solve exact_solver ?opts one_dof_system zero_store = Inr ((sys', st', tr), k)
      \<and> m_stopping_reason sys' = 2 \<and> k = 2
      \<and> tr = [ElementCompute 0 0, SetMatrix, SolverSolve, SetDelta 0,
               ElementCompute 1 0, SetMatrix, SolverSolve, SetDelta 0]"
    by simp
qed

text \<open>
  The claim as stated fails for a negative \<open>maxiter\<close>: with \<open>maxiter = - 1\<close> the run stops
  with reason 2 after no pass through the body, and 0 is not \<open>- 1\<close>.
\<close>

theorem solve_iteration_count_counterexample:
  "stopping_reason_of
     (solve exact_solver (ldlt_options\<lparr>maxiter := Some (- 1)\<rparr>) one_dof_system zero_store) = Some 2
   \<and> iterations_run
     (solve exact_solver (ldlt_options\<lparr>maxiter := Some (- 1)\<rparr>) one_dof_system zero_store) = Some 0
   \<and> get_or_default (maxiter (ldlt_options\<lparr>maxiter := Some (- 1)\<rparr>)) 100 = - 1"
  using solve_limit_at_entry[of "ldlt_options\<lparr>maxiter := Some (- 1)\<rparr>" "- 1" exact_solver
      one_dof_system zero_store]
  by (simp add: stopping_reason_of_def iterations_run_def get_or_default_def)

section \<open>The Newton driver: exit on a small step\<close>

text \<open>
  Claim C10. A run of \<^verbatim>\<open>solve\<close> on a constructed system that exits with stopping
  reason 1 exits in an iteration \<open>k\<close> below the limit; its last correction \<open>x\<close> has
  \<open>\<parallel>x\<parallel> < xtol\<close>, and every free DoF's \<open>delta\<close> at exit is its \<open>delta\<close> at the head of
  that last iteration minus its component of \<open>x\<close>: the update comes before the check of
  the step norm, so the correction below the tolerance is applied.
\<close>

theorem step_exit_applies_correction:
  assumes ctor: "System_ctor srt u els copts st0 = Inr sys"
    and run: "solve sv opts sys st = Inr ((sys', st', tr), k)"
    and reason: "m_stopping_reason sys' = 1"
  shows "norm2 (m_x sys') < get_or_default (xtol opts) (1 / 10000000)
       \<and> 0 \<le> k \<and> k < get_or_default (maxiter opts) 100
       \<and> (\<exists>opts1 sysh sth trh.
            loop_head sv (get_or_default (maxiter opts) 100)
              (get_or_default (rtol opts) (1 / 10000000))
              (get_or_default (xtol opts) (1 / 10000000)) opts
              (setup_target (get_or_default (lambda opts) 1) st sys, st, []) (nat k)
              = Some (opts1, (sysh, sth, trh))
            \<and> (\<forall>i<m_nb_free_dofs sys.
                  delta (st' (m_dofs sys ! i)) = delta (sth (m_dofs sys ! i)) - m_x sys' ! i))"
proof -
  let ?maxit = "get_or_default (maxiter opts) 100"
  let ?rt = "get_or_default (rtol opts) (1 / 10000000)"
  let ?xt = "get_or_default (xtol opts) (1 / 10000000)"
  let ?s0 = "(setup_target (get_or_default (lambda opts) 1) st sys, st, [])"
  from run obtain st1 where
    L: "solve_loop sv ?maxit ?rt ?xt opts 0 ?s0 = Inr ((sys', st1, tr), k)"
    and st': "st' = store_residuals sys' st1"
    by (auto simp: solve_def Let_def split: sum.splits)
  have h0: "loop_head sv ?maxit ?rt ?xt opts ?s0 (nat 0) = Some (opts, ?s0)" by simp
  from solve_loop_step_exit[OF L reason _ h0]
  obtain opts1 h where head: "loop_head sv ?maxit ?rt ?xt opts ?s0 (nat k) = Some (opts1, h)"
    and it: "newton_iteration sv ?rt ?xt opts1 k h = Inr (Break (sys', st1, tr))"
    and k: "0 \<le> k" "k < ?maxit"
    by auto
  obtain sysh sth trh where h: "h = (sysh, sth, trh)" by (cases h) auto
  from loop_head_fields[OF head[unfolded h]]
  have fh: "m_dofs sysh = m_dofs sys" "m_nb_free_dofs sysh = m_nb_free_dofs sys"
    by (simp_all add: setup_target_fields)
  from newton_iteration_step_exit[OF it[unfolded h] reason] fh
  have x: "norm2 (m_x sys') < ?xt" and upd: "st1 = update_dofs sys' sth"
    and f': "m_dofs sys' = m_dofs sys" "m_nb_free_dofs sys' = m_nb_free_dofs sys"
    by simp_all
  note cd = System_ctor_dofs(1,2)[OF ctor]
  have "delta (st' (m_dofs sys ! i)) = delta (sth (m_dofs sys ! i)) - m_x sys' ! i"
    if "i < m_nb_free_dofs sys" for i
  proof -
    have "delta (update_dofs sys' sth (m_dofs sys' ! i)) = delta (sth (m_dofs sys' ! i)) - m_x sys' ! i"
      by (rule update_dofs_delta) (use cd f' that in simp_all)
    then show ?thesis by (simp add: st' upd delta_store_residuals f')
  qed
  with x k head h show ?thesis by blast
qed

theorem step_exit_applies_correction_witness:
  "System_ctor stable_sort zero_uninit [one_dof_element] ldlt_options zero_store
     = Inr one_dof_system
   \<and> (\<exists>sys' st' tr.
        solve exact_solver (ldlt_options\<lparr>xtol := Some 1\<rparr>) one_dof_system zero_store
          = Inr ((sys', st', tr), 0)
        \<and> m_stopping_reason sys' = 1
        \<and> norm2 (m_x sys') < 1
        \<and> delta (st' 0) = delta (zero_store 0) - m_x sys' ! 0
        \<and> m_x sys' ! 0 = 1 / 2)"
proof -
  let ?opts = "ldlt_options\<lparr>xtol := Some 1\<rparr>"
  have "\<exists>sys' st'. solve exact_solver ?opts one_dof_system zero_store
            = Inr ((sys', st', iteration_events 1 1 0), 0)
          \<and> m_stopping_reason sys' = 1 \<and> m_x sys' = [1 / 2]
          \<and> delta (st' 0) = delta (zero_store 0) - 1 / 2"
    by (rule one_dof_solve_step[where e=one_dof_element and sys=one_dof_system],
        rule one_dof_element_constant, rule exact_solver_ldlt, rule one_dof_system_inv)
       (simp_all add: zero_store_def ldlt_options_def no_options_def get_or_default_def)
  then obtain sys' st' tr where
    run: "solve exact_solver ?opts one_dof_system zero_store = Inr ((sys', st', tr), 0)"
    and r: "m_stopping_reason sys' = 1" and x: "m_x sys' = [1 / 2]"
    by blast
  from step_exit_applies_correction[OF one_dof_system_constructed run r]
  have "norm2 (m_x sys') < 1 \<and> delta (st' 0) = delta (zero_store 0) - m_x sys' ! 0"
    by (simp add: ldlt_options_def no_options_def get_or_default_def one_dof_system_def
        setup_target_def)
  with run r x one_dof_system_constructed show ?thesis by auto
qed

section \<open>One constant element over one free DoF\<close>




section \<open>Construction with an unknown solver name\<close>

text \<open>
  Claim C4 against the code. With \<open>linear_solver = "cg"\<close> the constructor does not raise
  a configuration error: it leaves \<^verbatim>\<open>m_solver\<close> null and the call
  \<^verbatim>\<open>m_solver->analyze_pattern(m_lhs)\<close> dereferences the null pointer.
\<close>

theorem unknown_solver_null_dereference:
  "System_ctor stable_sort zero_uninit [] (no_options\<lparr>linear_solver := Some ''cg''\<rparr>) zero_store
     = Inl NullPointerDereference
   \<and> System_ctor stable_sort zero_uninit [] (no_options\<lparr>linear_solver := Some ''cg''\<rparr>) zero_store
     \<noteq> Inl ConfigurationError"
proof -
  have "System_ctor stable_sort zero_uninit [] (no_options\<lparr>linear_solver := Some ''cg''\<rparr>)
          zero_store = Inl NullPointerDereference"
    by (rule System_ctor_unknown_solver[where name="''cg''"]) simp_all
  then show ?thesis by simp
qed

section \<open>The partition into free and fixed DoFs\<close>

text \<open>
  Claim C8. After construction the DoF vector has \<open>N = F + nb_fixed\<close> entries; every
  index below \<open>F\<close> holds a DoF that was not fixed when the system was built and every
  index from \<open>F\<close> to \<open>N - 1\<close> a DoF that was. Any sequence of \<^verbatim>\<open>compute\<close>,
  \<^verbatim>\<open>compute_parallel\<close> and \<^verbatim>\<open>solve\<close> that returns leaves the DoF vector, \<open>F\<close> and
  the fixed flags as they were, so the partition still holds afterwards.
\<close>

theorem free_fixed_partition_invariant:
  assumes ctor: "System_ctor srt u els copts st = Inr sys"
    and run: "apply_operations sv opers (sys, st) = Inr (sys', st')"
  shows "length (m_dofs sys) = m_nb_free_dofs sys + m_nb_fixed_dofs sys
       \<and> (\<forall>i<m_nb_free_dofs sys. \<not> isfixed (st (m_dofs sys ! i)))
       \<and> (\<forall>i. m_nb_free_dofs sys \<le> i \<and> i < length (m_dofs sys)
               \<longrightarrow> isfixed (st (m_dofs sys ! i)))
       \<and> m_dofs sys' = m_dofs sys
       \<and> m_nb_free_dofs sys' = m_nb_free_dofs sys
       \<and> m_nb_fixed_dofs sys' = m_nb_fixed_dofs sys
       \<and> (\<forall>i<m_nb_free_dofs sys'. \<not> isfixed (st' (m_dofs sys' ! i)))
       \<and> (\<forall>i. m_nb_free_dofs sys' \<le> i \<and> i < length (m_dofs sys')
               \<longrightarrow> isfixed (st' (m_dofs sys' ! i)))"
proof -
  note c = System_ctor_dofs(2,3)[OF ctor]
  note k = apply_operations_keeps[OF run]
  have a: "\<not> isfixed (st (m_dofs sys ! i))" if "i < m_nb_free_dofs sys" for i
  proof -
    from that c(1) have "i < length (m_dofs sys)" by simp
    with c(2) that show ?thesis by blast
  qed
  have b: "isfixed (st (m_dofs sys ! i))"
    if "m_nb_free_dofs sys \<le> i \<and> i < length (m_dofs sys)" for i
  proof -
    from that have "\<not> i < m_nb_free_dofs sys" by simp
    with c(2) that show ?thesis by blast
  qed
  from a b c(1) k show ?thesis by simp
qed

theorem free_fixed_partition_invariant_witness:
  "\<exists>sys sys' st'.
     System_ctor stable_sort zero_uninit [two_dof_element] ldlt_options fixed_one_store = Inr sys
   \<and> apply_operations exact_solver
        [Compute ldlt_options, ComputeParallel [0] ldlt_options,
         Solve (ldlt_options\<lparr>maxiter := Some 0\<rparr>)] (sys, fixed_one_store) = Inr (sys', st')
   \<and> m_dofs sys = [0, 1] \<and> m_nb_free_dofs sys = 1
   \<and> \<not> isfixed (fixed_one_store (m_dofs sys ! 0)) \<and> isfixed (fixed_one_store (m_dofs sys ! 1))
   \<and> m_dofs sys' = [0, 1] \<and> m_nb_free_dofs sys' = 1
   \<and> \<not> isfixed (st' (m_dofs sys' ! 0)) \<and> isfixed (st' (m_dofs sys' ! 1))"
proof -
  let ?opers = "[Compute ldlt_options, ComputeParallel [0] ldlt_options,
                 Solve (ldlt_options\<lparr>maxiter := Some 0\<rparr>)]"
  have "\<exists>sys. System_ctor stable_sort zero_uninit [two_dof_element] ldlt_options fixed_one_store
          = Inr sys"
    by (rule System_ctor_succeeds) (simp add: ldlt_options_def)
  then obtain sys where
    c: "System_ctor stable_sort zero_uninit [two_dof_element] ldlt_options fixed_one_store = Inr sys"
    by blast
  have u: "unique_dofs fixed_one_store (map element_dofs [two_dof_element]) = ({0, 1}, [0], [1])"
    by (auto simp: unique_dofs_def add_dof_def two_dof_element_def constant_element_def
        fixed_one_store_def zero_store_def)
  from c u have d: "m_dofs sys = [0, 1]" and f: "m_nb_free_dofs sys = 1"
    by (auto elim!: System_ctor_Inr)
  have "\<exists>sys' st'. apply_operations exact_solver ?opers (sys, fixed_one_store) = Inr (sys', st')"
    using solve_limit_at_entry[of "ldlt_options\<lparr>maxiter := Some 0\<rparr>" 0 exact_solver]
    by (simp add: apply_operation_def)
  then obtain sys' st' where
    r: "apply_operations exact_solver ?opers (sys, fixed_one_store) = Inr (sys', st')"
    by blast
  note t = free_fixed_partition_invariant[OF c r]
  from t have free0: "\<forall>i<m_nb_free_dofs sys. \<not> isfixed (fixed_one_store (m_dofs sys ! i))"
    and fixed0: "\<forall>i. m_nb_free_dofs sys \<le> i \<and> i < length (m_dofs sys)
                    \<longrightarrow> isfixed (fixed_one_store (m_dofs sys ! i))"
    and same: "m_dofs sys' = m_dofs sys" "m_nb_free_dofs sys' = m_nb_free_dofs sys"
    and free1: "\<forall>i<m_nb_free_dofs sys'. \<not> isfixed (st' (m_dofs sys' ! i))"
    and fixed1: "\<forall>i. m_nb_free_dofs sys' \<le> i \<and> i < length (m_dofs sys')
                    \<longrightarrow> isfixed (st' (m_dofs sys' ! i))"
    by blast+
  from free0 f have a0: "\<not> isfixed (fixed_one_store (m_dofs sys ! 0))" by simp
  from fixed0[rule_format, of 1] d f have b0: "isfixed (fixed_one_store (m_dofs sys ! 1))"
    by simp
  from free1 same f have a1: "\<not> isfixed (st' (m_dofs sys' ! 0))" by simp
  from fixed1[rule_format, of 1] same d f have b1: "isfixed (st' (m_dofs sys' ! 1))"
    by simp
  from c r d f a0 b0 a1 b1 same show ?thesis by auto
qed

section \<open>Systems without free DoFs\<close>

text \<open>
  Claim C7. With a known (or absent) solver name the constructor succeeds for every
  element list; an empty list gives \<open>F = 0\<close>; and on a system with \<open>F = 0\<close> a
  \<^verbatim>\<open>solve\<close> with \<open>maxiter \<ge> 1\<close> and \<open>rtol > 0\<close> (the defaults are 100 and \<open>10\<^sup>-\<^sup>7\<close>)
  leaves the loop in iteration 0, after one assembly, with stopping reason 0: the
  residual has length 0 and norm 0.
\<close>

theorem no_free_dofs_solve:
  assumes ls: "linear_solver copts \<in> {None, Some ''ldlt'', Some ''lsmr''}"
    and m: "1 \<le> get_or_default (maxiter opts) 100"
    and rt: "0 < get_or_default (rtol opts) (1 / 10000000)"
  shows "\<exists>sys. System_ctor srt u els copts st0 = Inr sys
           \<and> (els = [] \<longrightarrow> m_nb_free_dofs sys = 0)
           \<and> (m_nb_free_dofs sys = 0 \<longrightarrow>
                (\<exists>sys' st'. solve sv opts sys st
                     = Inr ((sys', st', map (ElementCompute 0) [0..<length els]), 0)
                   \<and> m_stopping_reason sys' = 0))"
proof -
  from System_ctor_succeeds[OF ls]
  obtain sys where c: "System_ctor srt u els copts st0 = Inr sys" by blast
  from c obtain seen free fixed where
    u: "unique_dofs st0 (map element_dofs els) = (seen, free, fixed)"
    and F: "m_nb_free_dofs sys = length free" and e: "m_elements sys = els"
    and lr: "length (m_rhs sys) = length free" and lt: "length (m_target sys) = length free"
    by (rule System_ctor_Inr)
  have empty: "m_nb_free_dofs sys = 0" if "els = []"
    using that u F by (simp add: unique_dofs_def)
  have "\<exists>sys' st'. solve sv opts sys st
           = Inr ((sys', st', map (ElementCompute 0) [0..<length els]), 0)
         \<and> m_stopping_reason sys' = 0" if z: "m_nb_free_dofs sys = 0"
  proof -
    from z F lr lt have "m_rhs sys = []" "m_target sys = []" by simp_all
    from solve_no_free_dofs[OF z this m rt, of sv st] e show ?thesis by simp
  qed
  then have solved: "m_nb_free_dofs sys = 0 \<longrightarrow>
      (\<exists>sys' st'. solve sv opts sys st
           = Inr ((sys', st', map (ElementCompute 0) [0..<length els]), 0)
         \<and> m_stopping_reason sys' = 0)"
    by blast
  have "els = [] \<longrightarrow> m_nb_free_dofs sys = 0" using empty by blast
  with c solved show ?thesis by (intro exI[of _ sys] conjI)
qed

theorem no_free_dofs_solve_witness:
  "linear_solver no_options \<in> {None, Some ''ldlt'', Some ''lsmr''}
   \<and> 1 \<le> get_or_default (maxiter no_options) 100
   \<and> 0 < get_or_default (rtol no_options) (1 / 10000000)
   \<and> (\<exists>sys sys' st'.
         System_ctor stable_sort zero_uninit [] no_options zero_store = Inr sys
       \<and> m_nb_free_dofs sys = 0
       \<and> solve exact_solver no_options sys zero_store = Inr ((sys', st', []), 0)
       \<and> m_stopping_reason sys' = 0)"
proof -
  have h: "linear_solver no_options \<in> {None, Some ''ldlt'', Some ''lsmr''}"
    "1 \<le> get_or_default (maxiter no_options) 100"
    "0 < get_or_default (rtol no_options) (1 / 10000000)"
    by (simp_all add: no_options_def get_or_default_def)
  from no_free_dofs_solve[OF h, of stable_sort zero_uninit "[]" zero_store exact_solver zero_store]
  show ?thesis using h by auto
qed

section \<open>The sparsity pattern\<close>

text \<open>
  Claim C2. After construction, for any sort that meets what \<^verbatim>\<open>std::sort\<close> guarantees,
  the structural nonzeros of the LHS are exactly the pairs \<open>(global(r), global(c))\<close> of
  positions \<open>r \<le> c\<close> in some element's sorted index table with both global indices below
  \<open>F\<close>: every such pair is present and every entry is such a pair. Every entry
  \<open>(row, col)\<close> has \<open>row \<le> col < F\<close>, the matrix is \<open>F \<times> F\<close>, and every index table is sorted
  by global index.
\<close>

theorem pattern_sound_and_minimal:
  assumes srt: "std_sort_spec srt"
    and ctor: "System_ctor srt u els copts st = Inr sys"
  shows "structural_nonzeros (m_lhs sys)
           = element_pairs (m_nb_free_dofs sys) (m_index_table sys)
       \<and> (\<forall>(r, c) \<in> structural_nonzeros (m_lhs sys). r \<le> c \<and> c < m_nb_free_dofs sys)
       \<and> rows (m_lhs sys) = m_nb_free_dofs sys \<and> cols (m_lhs sys) = m_nb_free_dofs sys
       \<and> (\<forall>t \<in> set (m_index_table sys). sorted (map global t))"
proof -
  from ctor obtain seen free fixed where
    F: "m_nb_free_dofs sys = length free"
    and tab: "m_index_table sys =
       map (make_index_table srt (make_dof_indices (free @ fixed))) (map element_dofs els)"
    and pat: "m_pattern sys = analyze_pattern (length free) (m_index_table sys)"
    and lhs: "m_lhs sys = (if length free > 0
        then insert_pattern (m_pattern sys) (Sparse_empty (length free) (length free))
        else Sparse_empty (length free) (length free))"
    by (rule System_ctor_Inr)
  let ?F = "length free"
  have sorted: "\<forall>t \<in> set (m_index_table sys). sorted (map global t)"
    using make_index_table_sorted[OF srt] by (auto simp: tab)
  have zero: "element_pairs 0 (m_index_table sys) = {}"
    by (auto simp: element_pairs_def)
  have nz: "structural_nonzeros (m_lhs sys) = element_pairs ?F (m_index_table sys)"
  proof (cases "?F > 0")
    case True
    then show ?thesis
      by (simp add: lhs pat insert_pattern_nonzeros analyze_pattern_pairs
          Sparse_empty_nonzeros)
  next
    case False
    then show ?thesis
      by (simp add: lhs zero Sparse_empty_nonzeros)
  qed
  have dims: "rows (m_lhs sys) = ?F \<and> cols (m_lhs sys) = ?F"
    by (simp add: lhs insert_pattern_nonzeros Sparse_empty_def)
  have upper: "\<forall>(r, c) \<in> structural_nonzeros (m_lhs sys). r \<le> c \<and> c < ?F"
    using element_pairs_upper[OF sorted] nz by auto
  from nz upper dims sorted show ?thesis by (simp add: F)
qed

theorem pattern_sound_and_minimal_witness:
  "std_sort_spec stable_sort
   \<and> (\<exists>sys. System_ctor stable_sort zero_uninit [two_dof_element, one_dof_element]
                no_options zero_store = Inr sys
          \<and> m_nb_free_dofs sys = 2
          \<and> m_index_table sys = [[\<lparr>local = 0, global = 0\<rparr>, \<lparr>local = 1, global = 1\<rparr>],
                                   [\<lparr>local = 0, global = 0\<rparr>]]
          \<and> element_pairs 2 (m_index_table sys) = {(0, 0), (0, 1), (1, 1)}
          \<and> structural_nonzeros (m_lhs sys) = {(0, 0), (0, 1), (1, 1)}
          \<and> rows (m_lhs sys) = 2 \<and> cols (m_lhs sys) = 2)"
proof -
  have "\<exists>sys. System_ctor stable_sort zero_uninit [two_dof_element, one_dof_element]
          no_options zero_store = Inr sys"
    by (rule System_ctor_succeeds) (simp add: no_options_def)
  then obtain sys where
    c: "System_ctor stable_sort zero_uninit [two_dof_element, one_dof_element]
          no_options zero_store = Inr sys"
    by blast
  from c obtain seen free fixed where
    u: "unique_dofs zero_store (map element_dofs [two_dof_element, one_dof_element])
          = (seen, free, fixed)"
    and F0: "m_nb_free_dofs sys = length free"
    and t0: "m_index_table sys =
       map (make_index_table stable_sort (make_dof_indices (free @ fixed)))
         (map element_dofs [two_dof_element, one_dof_element])"
    by (rule System_ctor_Inr)
  from u[unfolded shared_dofs_unique] have fr: "free = [0, 1]" "fixed = []" by simp_all
  have F: "m_nb_free_dofs sys = 2" by (simp add: F0 fr)
  have t: "m_index_table sys = [[\<lparr>local = 0, global = 0\<rparr>, \<lparr>local = 1, global = 1\<rparr>],
                                 [\<lparr>local = 0, global = 0\<rparr>]]"
    unfolding t0 fr by (rule shared_dofs_tables)
  have p: "element_pairs 2 (m_index_table sys) = {(0, 0), (0, 1), (1, 1)}"
    unfolding t by (rule shared_dofs_pairs)
  from pattern_sound_and_minimal[OF std_sort_stable_sort c]
  have "structural_nonzeros (m_lhs sys) = element_pairs (m_nb_free_dofs sys) (m_index_table sys)"
    and "rows (m_lhs sys) = m_nb_free_dofs sys" and "cols (m_lhs sys) = m_nb_free_dofs sys"
    by blast+
  then have "structural_nonzeros (m_lhs sys) = {(0, 0), (0, 1), (1, 1)}
        \<and> rows (m_lhs sys) = 2 \<and> cols (m_lhs sys) = 2"
    by (simp only: F p)
  with c F t p std_sort_stable_sort show ?thesis by blast
qed

section \<open>Repeated assembly\<close>

text \<open>
  Claim C6. For every \<open>n \<ge> 1\<close>, \<open>n\<close> calls of \<^verbatim>\<open>compute\<close> in a row, with the same option
  bag and unchanged DoF variables, leave the same LHS and the same RHS as one call:
  every call sets all stored LHS values and the RHS to zero before it adds.
\<close>

theorem repeated_assembly_same_values:
  assumes "1 \<le> n"
  shows "m_lhs ((compute opts st ^^ n) sys) = m_lhs (compute opts st sys)
       \<and> m_rhs ((compute opts st ^^ n) sys) = m_rhs (compute opts st sys)"
proof -
  have "(compute opts st ^^ Suc m) sys = compute opts st sys" for m
    by (induction m) (simp_all add: compute_idempotent)
  from this[of "n - 1"] assms show ?thesis by simp
qed

theorem repeated_assembly_same_values_witness:
  "(1::nat) \<le> 3
   \<and> m_lhs ((compute ldlt_options zero_store ^^ 3) one_dof_system)
       = m_lhs (compute ldlt_options zero_store one_dof_system)
   \<and> m_rhs ((compute ldlt_options zero_store ^^ 3) one_dof_system)
       = m_rhs (compute ldlt_options zero_store one_dof_system)
   \<and> m_rhs (compute ldlt_options zero_store one_dof_system) = [1]
   \<and> coeffs (m_lhs (compute ldlt_options zero_store one_dof_system)) (0, 0) = Some 2"
  using repeated_assembly_same_values[of 3 ldlt_options zero_store one_dof_system]
    one_dof_compute(1,2)[OF one_dof_system_inv, of ldlt_options zero_store]
  by (simp add: one_dof_element_constant)

section \<open>Serial and parallel assembly\<close>

text \<open>
  Claim C5 against the code. \<^verbatim>\<open>compute_parallel\<close> does not set the LHS values and the
  RHS to zero before it adds (\<open>compute_parallel_after_zeroing\<close>: started from zeroed
  values it agrees with \<^verbatim>\<open>compute\<close> for every order of the elements). On the system of
  \<open>one_dof_element\<close>, after one assembly, \<^verbatim>\<open>compute\<close> gives the RHS \<open>[1]\<close> and the LHS
  value 2 again, while \<^verbatim>\<open>compute_parallel\<close> gives \<open>[2]\<close> and 4.
\<close>

theorem compute_parallel_does_not_rezero:
  "m_rhs (compute ldlt_options zero_store (compute ldlt_options zero_store one_dof_system)) = [1]
   \<and> m_rhs (compute_parallel [0] ldlt_options zero_store
              (compute ldlt_options zero_store one_dof_system)) = [2]
   \<and> coeffs (m_lhs (compute ldlt_options zero_store
                      (compute ldlt_options zero_store one_dof_system))) (0, 0) = Some 2
   \<and> coeffs (m_lhs (compute_parallel [0] ldlt_options zero_store
                      (compute ldlt_options zero_store one_dof_system))) (0, 0) = Some 4"
proof -
  let ?c = "compute ldlt_options zero_store one_dof_system"
  note c = one_dof_compute(1,2,5)[OF one_dof_system_inv, of ldlt_options zero_store,
      OF one_dof_element_constant[rule_format]]
  have serial: "compute ldlt_options zero_store ?c = ?c" by (rule compute_idempotent)
  have e: "element_compute one_dof_element ldlt_options zero_store = ([[2]], [1])"
    by (simp add: one_dof_element_constant)
  have par: "m_rhs (compute_parallel [0] ldlt_options zero_store ?c) = [2]
      \<and> coeffs (m_lhs (compute_parallel [0] ldlt_options zero_store ?c)) (0, 0) = Some 4"
    using c e
    by (simp add: compute_parallel_def assemble_element_def add_element_def scatter_row_def
        scatter_col_def coeffRef_add_def one_dof_inv_def Let_def)
  from serial c par show ?thesis by simp
qed

end
